theory Spec2Isabelle
  imports Complex_Main
begin

section \<open>Python strings\<close>

text \<open>
  Strings are \<^typ>\<open>string\<close>, one \<^typ>\<open>char\<close> per code point: the model covers ASCII
  text, which is what device ids, session ids, object keys and commands are made of. The
  functions below are the \<^verbatim>\<open>str\<close> methods and the regular-expression classes the
  program uses, restricted to ASCII: \<^verbatim>\<open>\d\<close> is \<open>0-9\<close>, \<^verbatim>\<open>\w\<close> is a letter, a digit
  or the underscore, and white space is what \<^verbatim>\<open>str.isspace\<close> accepts below 128.
\<close>

definition is_digit :: "char \<Rightarrow> bool" where
  "is_digit c = (c \<in> set ''0123456789'')"

definition is_word_char :: "char \<Rightarrow> bool" where
  "is_word_char c =
     (c \<in> set ''abcdefghijklmnopqrstuvwxyzABCDEFGHIJKLMNOPQRSTUVWXYZ0123456789_'')"

definition is_space :: "char \<Rightarrow> bool" where
  "is_space c =
     (c \<in> set [CHR '' '', CHR 0x09, CHR 0x0A, CHR 0x0B, CHR 0x0C, CHR 0x0D,
                CHR 0x1C, CHR 0x1D, CHR 0x1E, CHR 0x1F])"

definition lower_char :: "char \<Rightarrow> char" where
  "lower_char c =
     (case map_of (zip ''ABCDEFGHIJKLMNOPQRSTUVWXYZ'' ''abcdefghijklmnopqrstuvwxyz'') c of
        Some l \<Rightarrow> l
      | None \<Rightarrow> c)"

definition lower :: "string \<Rightarrow> string" where
  "lower s = map lower_char s"

definition lstrip :: "string \<Rightarrow> string" where
  "lstrip s = dropWhile is_space s"

definition rstrip :: "string \<Rightarrow> string" where
  "rstrip s = rev (dropWhile is_space (rev s))"

definition strip :: "string \<Rightarrow> string" where
  "strip s = rstrip (lstrip s)"

definition startswith :: "string \<Rightarrow> string \<Rightarrow> bool" where
  "startswith s p = (take (length p) s = p)"

definition endswith :: "string \<Rightarrow> string \<Rightarrow> bool" where
  "endswith s p = (length p \<le> length s \<and> drop (length s - length p) s = p)"

text \<open>\<^verbatim>\<open>p in s\<close>: \<open>p\<close> occurs in \<open>s\<close> as a substring.\<close>

fun contains :: "string \<Rightarrow> string \<Rightarrow> bool" where
  "contains [] p = (p = [])"
| "contains (c # cs) p = (startswith (c # cs) p \<or> contains cs p)"



text \<open>\<^verbatim>\<open>s.split(sep)\<close> for a separator of one character: never empty.\<close>

fun split_char_acc :: "char \<Rightarrow> string \<Rightarrow> string \<Rightarrow> string list" where
  "split_char_acc sep [] cur = [rev cur]"
| "split_char_acc sep (c # cs) cur =
     (if c = sep then rev cur # split_char_acc sep cs [] else split_char_acc sep cs (c # cur))"

definition split_char :: "char \<Rightarrow> string \<Rightarrow> string list" where
  "split_char sep s = split_char_acc sep s []"

text \<open>\<^verbatim>\<open>s.rstrip("/")\<close> and \<^verbatim>\<open>s.split("/")[-1]\<close>.\<close>

definition rstrip_slash :: "string \<Rightarrow> string" where
  "rstrip_slash s = rev (dropWhile (\<lambda>c. c = CHR ''/'') (rev s))"

definition last_component :: "string \<Rightarrow> string" where
  "last_component s = last (split_char CHR ''/'' s)"

text \<open>
  The pattern end \<^verbatim>\<open>$\<close> of \<^verbatim>\<open>re.match\<close> also matches just before one final line
  feed: \<open>chomp\<close> removes it.
\<close>

definition chomp :: "string \<Rightarrow> string" where
  "chomp s = (if s \<noteq> [] \<and> last s = CHR 0x0A then butlast s else s)"

definition digits_value :: "string \<Rightarrow> nat" where
  "digits_value s = foldl (\<lambda>n c. 10 * n + (of_char c - 48)) 0 s"

section \<open>Calendar dates\<close>

text \<open>
  \<^verbatim>\<open>datetime.date(year, month, day)\<close> raises \<^verbatim>\<open>ValueError\<close> unless the year is in
  \<open>1..9999\<close> and the day exists in the month; \<open>make_date\<close> returns \<open>None\<close> there.
  Dates compare as the triples (year, month, day).
\<close>

datatype date = Date (year: nat) (month: nat) (day: nat)

definition is_leap :: "nat \<Rightarrow> bool" where
  "is_leap y = (y mod 4 = 0 \<and> (y mod 100 \<noteq> 0 \<or> y mod 400 = 0))"

definition days_in_month :: "nat \<Rightarrow> nat \<Rightarrow> nat" where
  "days_in_month y m =
     (if m = 2 then (if is_leap y then 29 else 28)
      else if m = 4 \<or> m = 6 \<or> m = 9 \<or> m = 11 then 30 else 31)"

definition make_date :: "nat \<Rightarrow> nat \<Rightarrow> nat \<Rightarrow> date option" where
  "make_date y m d =
     (if 1 \<le> y \<and> y \<le> 9999 \<and> 1 \<le> m \<and> m \<le> 12 \<and> 1 \<le> d \<and> d \<le> days_in_month y m
      then Some (Date y m d) else None)"

definition date_less :: "date \<Rightarrow> date \<Rightarrow> bool" where
  "date_less a b =
     (year a < year b \<or> (year a = year b \<and>
       (month a < month b \<or> (month a = month b \<and> day a < day b))))"




section \<open>Command parsing (lark\_bots/scan\_service.py)\<close>






section \<open>The single-flight task executor (lark\_bots/scan\_service.py)\<close>




















section \<open>The world of the scanner (scanner/scan/info\_scan.py)\<close>

text \<open>
  The scanner works on two things outside the program: the OSS bucket and the PostgreSQL
  connection. Their client libraries are not part of the repository, so this section says
  what the model takes them to be.

  The bucket's content is fixed during a run. A \<open>bucket\<close> gives the answer of every
  request: the common prefixes below a prefix (\<^verbatim>\<open>list_objects_v2\<close> with a delimiter), the
  pages of keys below a prefix (\<^verbatim>\<open>list_objects_v2\<close> with a continuation token; the token
  is the number of the page), whether a key exists, its size, and what \<^verbatim>\<open>json.load\<close> makes
  of its body (\<open>None\<close> when decoding raises \<^verbatim>\<open>JSONDecodeError\<close>).

  Everything that changes is in the \<open>world\<close>: the three tables with the rows that are
  committed, the writes of the open transaction, and for each of the two services a
  schedule of faults and a trace. A request takes the next entry of its schedule; \<open>True\<close>
  makes the request raise, an empty schedule means no more faults. The schedules are
  arbitrary, so a theorem about every world covers every pattern of failures. The traces
  list the requests in order. \<open>logged\<close> holds what the scanner's functions write with
  \<^verbatim>\<open>logging.warning\<close> and \<^verbatim>\<open>logging.error\<close> (messages at the levels info and debug, and the
  warning of the pure function \<open>parse_session_id\<close>, are not recorded).
\<close>

datatype json =
  JNull | JBool bool | JNum rat | JStr string | JArr "json list" | JObj "(string \<times> json) list"

datatype exn =
  AttributeError | TypeError | JSONDecodeError | OssError | NoSuchKey | RetryError
  | DatabaseError | UniqueViolation

record session_record =
  session_id :: string
  sess_device_id :: string
  collect_date :: string
  collect_time :: string
  start_time_utc :: json
  end_time_utc :: json
  task_description :: json
  scene :: json
  collect_site :: json
  operator_info :: json
  device_model :: json
  platform :: json
  resolution :: json
  fps :: json
  num_cameras :: nat
  raw_metadata_json :: json

record segment_record =
  seg_session_id :: string
  segment_number :: string
  down_file_name :: string
  down_oss_path :: string
  down_file_size_bytes :: int
  front_file_name :: string
  front_oss_path :: string
  front_file_size_bytes :: int

record device_row =
  row_device_id :: string
  row_mb_per_10min :: rat
  row_is_active :: bool
  row_skip_scan :: bool

record bucket =
  bucket_name :: string
  prefix_list :: "string \<Rightarrow> string list"
  object_pages :: "string \<Rightarrow> string list list"
  object_exists :: "string \<Rightarrow> bool"
  content_length :: "string \<Rightarrow> int"
  object_json :: "string \<Rightarrow> json option"

datatype oss_call =
  ListPrefixes string | ListPage string nat | ObjectExists string | HeadObject string
  | GetObject string

datatype db_stmt =
  SelectDevices | InsertDevice string | SelectSession string | SelectSegment string string
  | InsertSession string | InsertSegment string string | Commit | Rollback

datatype db_write =
  WriteSession session_record | WriteSegment segment_record | WriteDevice device_row

datatype level = WARNING | ERROR

type_synonym log_entry = "level \<times> string \<times> string"

record world =
  oss_faults :: "bool list"
  oss_calls :: "oss_call list"
  sessions_tbl :: "session_record list"
  segments_tbl :: "segment_record list"
  devices_tbl :: "device_row list"
  uncommitted :: "db_write list"
  db_faults :: "bool list"
  db_trace :: "db_stmt list"
  logged :: "log_entry list"

definition logging :: "level \<Rightarrow> string \<Rightarrow> string \<Rightarrow> world \<Rightarrow> world" where
  "logging lvl site subject w = w\<lparr>logged := logged w @ [(lvl, site, subject)]\<rparr>"

text \<open>One request to the bucket: it is recorded, and the answer says whether it raised.\<close>

definition oss_request :: "oss_call \<Rightarrow> world \<Rightarrow> bool \<times> world" where
  "oss_request c w =
     (case oss_faults w of
        [] \<Rightarrow> (False, w\<lparr>oss_calls := oss_calls w @ [c]\<rparr>)
      | f # fs \<Rightarrow> (f, w\<lparr>oss_faults := fs, oss_calls := oss_calls w @ [c]\<rparr>))"

text \<open>One statement sent over the connection, \<^verbatim>\<open>commit\<close> included.\<close>

definition db_request :: "db_stmt \<Rightarrow> world \<Rightarrow> bool \<times> world" where
  "db_request st w =
     (case db_faults w of
        [] \<Rightarrow> (False, w\<lparr>db_trace := db_trace w @ [st]\<rparr>)
      | f # fs \<Rightarrow> (f, w\<lparr>db_faults := fs, db_trace := db_trace w @ [st]\<rparr>))"

text \<open>
  What a statement sees: the committed rows and the rows written by the open
  transaction.
\<close>

fun pending_sessions :: "db_write list \<Rightarrow> session_record list" where
  "pending_sessions [] = []"
| "pending_sessions (WriteSession r # ws) = r # pending_sessions ws"
| "pending_sessions (_ # ws) = pending_sessions ws"

fun pending_segments :: "db_write list \<Rightarrow> segment_record list" where
  "pending_segments [] = []"
| "pending_segments (WriteSegment r # ws) = r # pending_segments ws"
| "pending_segments (_ # ws) = pending_segments ws"

fun pending_devices :: "db_write list \<Rightarrow> device_row list" where
  "pending_devices [] = []"
| "pending_devices (WriteDevice r # ws) = r # pending_devices ws"
| "pending_devices (_ # ws) = pending_devices ws"

definition visible_sessions :: "world \<Rightarrow> session_record list" where
  "visible_sessions w = sessions_tbl w @ pending_sessions (uncommitted w)"

definition visible_segments :: "world \<Rightarrow> segment_record list" where
  "visible_segments w = segments_tbl w @ pending_segments (uncommitted w)"

definition visible_devices :: "world \<Rightarrow> device_row list" where
  "visible_devices w = devices_tbl w @ pending_devices (uncommitted w)"

definition segment_key :: "segment_record \<Rightarrow> string \<times> string" where
  "segment_key r = (seg_session_id r, segment_number r)"

text \<open>
  \<^verbatim>\<open>cur.execute\<close> of the three INSERT statements. The primary key of \<open>fpv.sessions\<close> and
  the unique constraint of \<open>fpv.segments\<close> raise \<open>UniqueViolation\<close>; the statement for
  devices ends with \<^verbatim>\<open>ON CONFLICT (device_id) DO NOTHING\<close>. The foreign key from segments
  to sessions is not part of the model: no theorem relies on the database to refuse a
  segment without a session.
\<close>

definition execute_insert_session :: "session_record \<Rightarrow> world \<Rightarrow> (exn + unit) \<times> world" where
  "execute_insert_session r w =
     (case db_request (InsertSession (session_id r)) w of
        (True, w1) \<Rightarrow> (Inl DatabaseError, w1)
      | (False, w1) \<Rightarrow>
          if session_id r \<in> set (map session_id (visible_sessions w1))
          then (Inl UniqueViolation, w1)
          else (Inr (), w1\<lparr>uncommitted := uncommitted w1 @ [WriteSession r]\<rparr>))"

definition execute_insert_segment :: "segment_record \<Rightarrow> world \<Rightarrow> (exn + unit) \<times> world" where
  "execute_insert_segment r w =
     (case db_request (InsertSegment (seg_session_id r) (segment_number r)) w of
        (True, w1) \<Rightarrow> (Inl DatabaseError, w1)
      | (False, w1) \<Rightarrow>
          if segment_key r \<in> set (map segment_key (visible_segments w1))
          then (Inl UniqueViolation, w1)
          else (Inr (), w1\<lparr>uncommitted := uncommitted w1 @ [WriteSegment r]\<rparr>))"

definition execute_insert_device :: "device_row \<Rightarrow> world \<Rightarrow> (exn + unit) \<times> world" where
  "execute_insert_device r w =
     (case db_request (InsertDevice (row_device_id r)) w of
        (True, w1) \<Rightarrow> (Inl DatabaseError, w1)
      | (False, w1) \<Rightarrow>
          if row_device_id r \<in> set (map row_device_id (visible_devices w1))
          then (Inr (), w1)
          else (Inr (), w1\<lparr>uncommitted := uncommitted w1 @ [WriteDevice r]\<rparr>))"

text \<open>\<^verbatim>\<open>conn.commit()\<close> makes the writes of the transaction durable; \<^verbatim>\<open>conn.rollback()\<close>
  drops them.\<close>

definition commit :: "world \<Rightarrow> (exn + unit) \<times> world" where
  "commit w =
     (case db_request Commit w of
        (True, w1) \<Rightarrow> (Inl DatabaseError, w1)
      | (False, w1) \<Rightarrow>
          (Inr (), w1\<lparr>sessions_tbl := visible_sessions w1,
                      segments_tbl := visible_segments w1,
                      devices_tbl := visible_devices w1,
                      uncommitted := []\<rparr>))"

definition rollback :: "world \<Rightarrow> world" where
  "rollback w = w\<lparr>uncommitted := [], db_trace := db_trace w @ [Rollback]\<rparr>"

section \<open>Database operations (info\_scan.py, lines 103-216, 399-436, 591-623)\<close>

record device_cfg =
  mb_per_10min :: rat
  skip_scan :: bool
  is_active :: bool

type_synonym device_config = "string \<Rightarrow> device_cfg option"

definition config_of_rows :: "device_row list \<Rightarrow> device_config" where
  "config_of_rows rows =
     foldl (\<lambda>config row. config(row_device_id row \<mapsto>
              \<lparr>mb_per_10min = row_mb_per_10min row, skip_scan = row_skip_scan row,
               is_active = row_is_active row\<rparr>))
       Map.empty rows"

definition load_device_config :: "world \<Rightarrow> device_config \<times> world" where
  "load_device_config w =
     (case db_request SelectDevices w of
        (True, w1) \<Rightarrow> (Map.empty, logging ERROR ''load_device_config'' [] w1)
      | (False, w1) \<Rightarrow> (config_of_rows (visible_devices w1), w1))"

definition default_device_row :: "string \<Rightarrow> device_row" where
  "default_device_row dev =
     \<lparr>row_device_id = dev, row_mb_per_10min = 600, row_is_active = True, row_skip_scan = False\<rparr>"

definition default_device_cfg :: device_cfg where
  "default_device_cfg = \<lparr>mb_per_10min = 600, skip_scan = False, is_active = True\<rparr>"

text \<open>
  \<open>ensure_device_exists\<close> answers whether the device is to be scanned; it registers a
  device that the configuration does not know, in the table and in the dictionary it was
  given, which is returned.
\<close>

definition ensure_device_exists ::
  "string \<Rightarrow> device_config \<Rightarrow> world \<Rightarrow> bool \<times> device_config \<times> world" where
  "ensure_device_exists dev device_config w =
     (case device_config dev of
        Some c \<Rightarrow>
          if skip_scan c then (False, device_config, w)
          else if \<not> is_active c then (False, device_config, w)
          else (True, device_config, w)
      | None \<Rightarrow>
          (case execute_insert_device (default_device_row dev) w of
             (Inl e, w1) \<Rightarrow>
               (False, device_config, rollback (logging ERROR ''ensure_device_exists'' dev w1))
           | (Inr _, w1) \<Rightarrow>
               (case commit w1 of
                  (Inl e, w2) \<Rightarrow>
                    (False, device_config,
                     rollback (logging ERROR ''ensure_device_exists'' dev w2))
                | (Inr _, w2) \<Rightarrow> (True, device_config(dev \<mapsto> default_device_cfg), w2))))"

definition is_session_exists :: "string \<Rightarrow> world \<Rightarrow> bool \<times> world" where
  "is_session_exists sid w =
     (case db_request (SelectSession sid) w of
        (True, w1) \<Rightarrow> (False, logging ERROR ''is_session_exists'' sid w1)
      | (False, w1) \<Rightarrow> (sid \<in> set (map session_id (visible_sessions w1)), w1))"

definition is_segment_exists :: "string \<Rightarrow> string \<Rightarrow> world \<Rightarrow> bool \<times> world" where
  "is_segment_exists sid num w =
     (case db_request (SelectSegment sid num) w of
        (True, w1) \<Rightarrow> (False, logging ERROR ''is_segment_exists'' (sid @ ''/'' @ num) w1)
      | (False, w1) \<Rightarrow> ((sid, num) \<in> set (map segment_key (visible_segments w1)), w1))"

text \<open>
  \<open>insert_session\<close> and \<open>insert_segment\<close>: execute, commit, \<open>True\<close>. The two handlers
  both roll back and return \<open>False\<close>; only the handler for other exceptions logs an
  error.
\<close>

definition insert_handler :: "string \<Rightarrow> string \<Rightarrow> exn \<Rightarrow> world \<Rightarrow> bool \<times> world" where
  "insert_handler site subject e w =
     (if e = UniqueViolation then (False, rollback w)
      else (False, rollback (logging ERROR site subject w)))"

definition insert_session :: "session_record \<Rightarrow> world \<Rightarrow> bool \<times> world" where
  "insert_session rec w =
     (case execute_insert_session rec w of
        (Inl e, w1) \<Rightarrow> insert_handler ''insert_session'' (session_id rec) e w1
      | (Inr _, w1) \<Rightarrow>
          (case commit w1 of
             (Inl e, w2) \<Rightarrow> insert_handler ''insert_session'' (session_id rec) e w2
           | (Inr _, w2) \<Rightarrow> (True, w2)))"

definition insert_segment :: "segment_record \<Rightarrow> world \<Rightarrow> bool \<times> world" where
  "insert_segment rec w =
     (case execute_insert_segment rec w of
        (Inl e, w1) \<Rightarrow> insert_handler ''insert_segment'' (segment_number rec) e w1
      | (Inr _, w1) \<Rightarrow>
          (case commit w1 of
             (Inl e, w2) \<Rightarrow> insert_handler ''insert_segment'' (segment_number rec) e w2
           | (Inr _, w2) \<Rightarrow> (True, w2)))"

section \<open>Bucket operations with retry (info\_scan.py, lines 223-271)\<close>

text \<open>
  The decorator \<^verbatim>\<open>@retry(retry=retry_if_exception_type(Exception),
  stop=stop_after_attempt(5), wait=wait_exponential(multiplier=0.5, min=1, max=10))\<close>:
  the function is called again after an exception until the fifth attempt has failed,
  then \<open>RetryError\<close> is raised. \<open>retry n\<close> is the decorator with \<open>n\<close> attempts left. The
  waiting time between two attempts is real time and is not part of the model.
\<close>

fun retry :: "nat \<Rightarrow> (world \<Rightarrow> (exn + 'a) \<times> world) \<Rightarrow> world \<Rightarrow> (exn + 'a) \<times> world" where
  "retry 0 f w = (Inl RetryError, w)"
| "retry (Suc n) f w =
     (case f w of
        (Inr v, w1) \<Rightarrow> (Inr v, w1)
      | (Inl e, w1) \<Rightarrow> retry n f w1)"

definition list_prefixes_body :: "bucket \<Rightarrow> string \<Rightarrow> world \<Rightarrow> (exn + string list) \<times> world" where
  "list_prefixes_body b prefix w =
     (case oss_request (ListPrefixes prefix) w of
        (True, w1) \<Rightarrow> (Inl OssError, w1)
      | (False, w1) \<Rightarrow> (Inr (prefix_list b prefix), w1))"

definition list_prefixes :: "bucket \<Rightarrow> string \<Rightarrow> world \<Rightarrow> (exn + string list) \<times> world" where
  "list_prefixes b prefix = retry 5 (list_prefixes_body b prefix)"

text \<open>
  The \<^verbatim>\<open>while True\<close> loop of \<open>list_objects\<close> asks for one page after the other until a
  page is not truncated, which is the last page of the bucket's answer. \<open>fetch_pages\<close>
  takes the pages still to come, the number of the next page and the keys collected.
\<close>

fun fetch_pages ::
  "string \<Rightarrow> string list list \<Rightarrow> nat \<Rightarrow> string list \<Rightarrow> world \<Rightarrow> (exn + string list) \<times> world" where
  "fetch_pages prefix [] token objects w =
     (case oss_request (ListPage prefix token) w of
        (True, w1) \<Rightarrow> (Inl OssError, w1)
      | (False, w1) \<Rightarrow> (Inr objects, w1))"
| "fetch_pages prefix (page # pages) token objects w =
     (case oss_request (ListPage prefix token) w of
        (True, w1) \<Rightarrow> (Inl OssError, w1)
      | (False, w1) \<Rightarrow>
          if pages = [] then (Inr (objects @ page), w1)
          else fetch_pages prefix pages (Suc token) (objects @ page) w1)"

definition list_objects_body :: "bucket \<Rightarrow> string \<Rightarrow> world \<Rightarrow> (exn + string list) \<times> world" where
  "list_objects_body b prefix w = fetch_pages prefix (object_pages b prefix) 0 [] w"

definition list_objects :: "bucket \<Rightarrow> string \<Rightarrow> world \<Rightarrow> (exn + string list) \<times> world" where
  "list_objects b prefix = retry 5 (list_objects_body b prefix)"

definition head_object :: "bucket \<Rightarrow> string \<Rightarrow> world \<Rightarrow> (exn + int) \<times> world" where
  "head_object b object_key w =
     (case oss_request (HeadObject object_key) w of
        (True, w1) \<Rightarrow> (Inl OssError, w1)
      | (False, w1) \<Rightarrow> (Inr (content_length b object_key), w1))"

text \<open>\<open>get_object_size\<close>: the decorated function has a \<^verbatim>\<open>try\<close> block of its own.\<close>

definition get_object_size_body :: "bucket \<Rightarrow> string \<Rightarrow> world \<Rightarrow> (exn + int) \<times> world" where
  "get_object_size_body b object_key w =
     (case head_object b object_key w of
        (Inr n, w1) \<Rightarrow> (Inr n, w1)
      | (Inl e, w1) \<Rightarrow> (Inr 0, logging WARNING ''get_object_size'' object_key w1))"

definition get_object_size :: "bucket \<Rightarrow> string \<Rightarrow> world \<Rightarrow> (exn + int) \<times> world" where
  "get_object_size b object_key = retry 5 (get_object_size_body b object_key)"

text \<open>
  The two methods of the bucket that \<open>scan_metadata\<close> calls directly, without the
  decorator: \<^verbatim>\<open>bucket.object_exists\<close> and \<^verbatim>\<open>bucket.get_object_to_file\<close> followed by
  \<^verbatim>\<open>json.load\<close> of the file.
\<close>

definition bucket_object_exists :: "bucket \<Rightarrow> string \<Rightarrow> world \<Rightarrow> (exn + bool) \<times> world" where
  "bucket_object_exists b oss_key w =
     (case oss_request (ObjectExists oss_key) w of
        (True, w1) \<Rightarrow> (Inl OssError, w1)
      | (False, w1) \<Rightarrow> (Inr (object_exists b oss_key), w1))"

definition get_object_json :: "bucket \<Rightarrow> string \<Rightarrow> world \<Rightarrow> (exn + json) \<times> world" where
  "get_object_json b oss_key w =
     (case oss_request (GetObject oss_key) w of
        (True, w1) \<Rightarrow> (Inl OssError, w1)
      | (False, w1) \<Rightarrow>
          if \<not> object_exists b oss_key then (Inl NoSuchKey, w1)
          else (case object_json b oss_key of
                  None \<Rightarrow> (Inl JSONDecodeError, w1)
                | Some metadata \<Rightarrow> (Inr metadata, w1)))"

section \<open>Parsing helpers (info\_scan.py, lines 278-343)\<close>

text \<open>
  \<open>parse_session_id\<close>: the pattern is
  \<^verbatim>\<open>^session_(\d{4})(\d{2})(\d{2})_(\d{2})(\d{2})(\d{2})_\d+$\<close>. The date string is built
  from the integers with the month and the day padded to two digits, which gives back
  their two digits; the year loses its leading zeros. An id that does not match, or whose
  date does not exist, gives two empty strings and no date.
\<close>

definition parse_session_id :: "string \<Rightarrow> string \<times> string \<times> date option" where
  "parse_session_id sid =
     (let s = chomp sid;
          y = take 4 (drop 8 s); mo = take 2 (drop 12 s); d = take 2 (drop 14 s);
          h = take 2 (drop 17 s); mi = take 2 (drop 19 s); se = take 2 (drop 21 s);
          micro = drop 24 s
      in if take 8 s = ''session_'' \<and> 24 < length s
            \<and> list_all is_digit (y @ mo @ d @ h @ mi @ se @ micro)
            \<and> take 1 (drop 16 s) = ''_'' \<and> take 1 (drop 23 s) = ''_''
         then (case make_date (digits_value y) (digits_value mo) (digits_value d) of
                 Some date_obj \<Rightarrow>
                   (dropWhile (\<lambda>c. c = CHR ''0'') y @ ''-'' @ mo @ ''-'' @ d,
                    h @ '':'' @ mi @ '':'' @ se, Some date_obj)
               | None \<Rightarrow> ([], [], None))
         else ([], [], None))"

definition is_date_in_range :: "date option \<Rightarrow> date option \<Rightarrow> date option \<Rightarrow> bool" where
  "is_date_in_range session_date start_date end_date =
     (case session_date of
        None \<Rightarrow> False
      | Some d \<Rightarrow>
          if start_date = None \<and> end_date = None then True
          else if (case start_date of Some s \<Rightarrow> date_less d s | None \<Rightarrow> False) then False
          else if (case end_date of Some e \<Rightarrow> date_less e d | None \<Rightarrow> False) then False
          else True)"

text \<open>
  \<open>parse_mp4_filename\<close>: the pattern is \<^verbatim>\<open>^(.+?)_sbs_(\d+)\.mp4$\<close>. The digits are the
  longest run of digits before \<^verbatim>\<open>.mp4\<close>, since the character before them is the
  underscore; the camera label is what stands before \<^verbatim>\<open>_sbs_\<close>, not empty and without
  a line feed.
\<close>

definition parse_mp4_filename :: "string \<Rightarrow> string \<times> string" where
  "parse_mp4_filename filename =
     (let s = chomp filename;
          stem = take (length s - 4) s;
          digits = rev (takeWhile is_digit (rev stem));
          head = take (length stem - length digits) stem;
          camera = take (length head - 5) head
      in if endswith s ''.mp4'' \<and> digits \<noteq> [] \<and> endswith head ''_sbs_'' \<and> camera \<noteq> []
            \<and> CHR 0x0A \<notin> set camera
         then (camera, digits) else ([], []))"

fun nested_lookup :: "json \<Rightarrow> string list \<Rightarrow> json \<Rightarrow> json" where
  "nested_lookup current [] dflt = current"
| "nested_lookup current (key # keys) dflt =
     (case current of
        JObj kvs \<Rightarrow>
          (case map_of kvs key of
             Some v \<Rightarrow> nested_lookup v keys dflt
           | None \<Rightarrow> dflt)
      | _ \<Rightarrow> dflt)"

definition get_nested_value :: "json \<Rightarrow> string \<Rightarrow> json \<Rightarrow> json" where
  "get_nested_value data path dflt = nested_lookup data (split_char CHR ''.'' path) dflt"

section \<open>The Metadata phase (info\_scan.py, lines 350-584)\<close>

text \<open>
  The metadata document is a JSON value; an object is the list of its members, looked up
  by key. \<open>dict_get\<close> is \<^verbatim>\<open>x.get(key, dflt)\<close>, which raises \<^verbatim>\<open>AttributeError\<close> when
  \<open>x\<close> is not a dictionary, and \<open>py_len\<close> is \<^verbatim>\<open>len(x)\<close>, which raises \<^verbatim>\<open>TypeError\<close> for
  numbers, booleans and \<^verbatim>\<open>None\<close>. \<open>try_then\<close> runs the rest of a function unless an
  exception was raised.
\<close>

definition dict_get :: "json \<Rightarrow> string \<Rightarrow> json \<Rightarrow> exn + json" where
  "dict_get x key dflt =
     (case x of
        JObj kvs \<Rightarrow> Inr (case map_of kvs key of Some v \<Rightarrow> v | None \<Rightarrow> dflt)
      | _ \<Rightarrow> Inl AttributeError)"

definition py_len :: "json \<Rightarrow> exn + nat" where
  "py_len x =
     (case x of
        JArr xs \<Rightarrow> Inr (length xs)
      | JStr t \<Rightarrow> Inr (length t)
      | JObj kvs \<Rightarrow> Inr (length (remdups (map fst kvs)))
      | _ \<Rightarrow> Inl TypeError)"

definition try_then :: "exn + 'a \<Rightarrow> ('a \<Rightarrow> exn + 'b) \<Rightarrow> exn + 'b" where
  "try_then r f = (case r of Inl e \<Rightarrow> Inl e | Inr v \<Rightarrow> f v)"

definition prepare_session_record :: "string \<Rightarrow> string \<Rightarrow> json \<Rightarrow> exn + session_record" where
  "prepare_session_record dev sid metadata =
     try_then (dict_get metadata ''start_time_utc_iso8601'' (JStr [])) (\<lambda>start_time_iso.
     try_then (dict_get metadata ''end_time_utc_iso8601'' (JStr [])) (\<lambda>end_time_iso.
     let (collect_date_str, collect_time_str, _) = parse_session_id sid in
     try_then (dict_get metadata ''task_info'' (JObj [])) (\<lambda>task_info.
     try_then (dict_get metadata ''camera_settings'' (JObj [])) (\<lambda>camera_settings.
     try_then (dict_get metadata ''device_info'' (JObj [])) (\<lambda>device_info.
     try_then (dict_get task_info ''operator_height'' JNull) (\<lambda>operator_height.
     let operator = (if operator_height \<noteq> JNull
                     then JObj [(''operator_height'', operator_height)] else JNull);
         site = get_nested_value metadata ''task_info.collect_site'' (JStr ''N/A'') in
     try_then (dict_get camera_settings ''stereo_cameras'' (JArr [])) (\<lambda>stereo_cameras.
     try_then (py_len stereo_cameras) (\<lambda>n_cameras.
     try_then (dict_get task_info ''task_description'' JNull) (\<lambda>description.
     try_then (dict_get task_info ''scene'' JNull) (\<lambda>scene_value.
     try_then (dict_get device_info ''model'' JNull) (\<lambda>model.
     try_then (dict_get device_info ''platform'' JNull) (\<lambda>platform_value.
     try_then (dict_get camera_settings ''resolution'' JNull) (\<lambda>resolution_value.
     try_then (dict_get camera_settings ''fps'' JNull) (\<lambda>fps_value.
       Inr \<lparr>session_id = sid, sess_device_id = dev,
            collect_date = collect_date_str, collect_time = collect_time_str,
            start_time_utc = start_time_iso, end_time_utc = end_time_iso,
            task_description = description, scene = scene_value, collect_site = site,
            operator_info = operator, device_model = model, platform = platform_value,
            resolution = resolution_value, fps = fps_value, num_cameras = n_cameras,
            raw_metadata_json = metadata\<rparr>))))))))))))))"

text \<open>
  The counters of \<open>scan_metadata\<close>, in the order of the dictionary \<^verbatim>\<open>stats\<close> (lines
  456-465): devices scanned, sessions scanned, sessions new, sessions that exist already,
  sessions skipped by the date filter, sessions without a metadata object, sessions whose
  processing failed, and sessions whose insert failed.
\<close>

record meta_stats =
  devices_scanned :: nat
  sessions_scanned :: nat
  sessions_new :: nat
  sessions_existing :: nat
  sessions_skipped :: nat
  metadata_missing :: nat
  parse_failed :: nat
  insert_failed :: nat

definition meta_stats0 :: meta_stats where
  "meta_stats0 = \<lparr>devices_scanned = 0, sessions_scanned = 0, sessions_new = 0,
                  sessions_existing = 0, sessions_skipped = 0, metadata_missing = 0,
                  parse_failed = 0, insert_failed = 0\<rparr>"

definition session_id_of :: "string \<Rightarrow> string" where
  "session_id_of session_prefix = last_component (rstrip_slash session_prefix)"

text \<open>
  The body of the loop over the sessions of a device (lines 504-569). The first
  component says whether the function returned (the limit of the debug mode).
\<close>

definition scan_metadata_session ::
  "bucket \<Rightarrow> date option \<Rightarrow> date option \<Rightarrow> bool \<Rightarrow> string \<Rightarrow> string \<Rightarrow> meta_stats \<Rightarrow> world
     \<Rightarrow> bool \<times> meta_stats \<times> world" where
  "scan_metadata_session b start_date end_date debug_mode dev session_prefix stats0 w =
     (let sid = session_id_of session_prefix;
          stats = stats0\<lparr>sessions_scanned := sessions_scanned stats0 + 1\<rparr>;
          (date_str, time_str, session_date) = parse_session_id sid
      in if \<not> is_date_in_range session_date start_date end_date
         then (False, stats\<lparr>sessions_skipped := sessions_skipped stats + 1\<rparr>, w)
         else
           (case is_session_exists sid w of
              (True, w1) \<Rightarrow> (False, stats\<lparr>sessions_existing := sessions_existing stats + 1\<rparr>, w1)
            | (False, w1) \<Rightarrow>
                (case bucket_object_exists b (session_prefix @ ''metadata.json'') w1 of
                   (Inl e, w2) \<Rightarrow>
                     (False, stats\<lparr>parse_failed := parse_failed stats + 1\<rparr>,
                      logging ERROR ''scan_metadata: processing failed'' sid w2)
                 | (Inr False, w2) \<Rightarrow>
                     (False, stats\<lparr>metadata_missing := metadata_missing stats + 1\<rparr>,
                      logging WARNING ''scan_metadata: no metadata'' sid w2)
                 | (Inr True, w2) \<Rightarrow>
                     (case get_object_json b (session_prefix @ ''metadata.json'') w2 of
                        (Inl e, w3) \<Rightarrow>
                          (False, stats\<lparr>parse_failed := parse_failed stats + 1\<rparr>,
                           logging ERROR
                             (if e = JSONDecodeError then ''scan_metadata: JSON decoding failed''
                              else ''scan_metadata: processing failed'') sid w3)
                      | (Inr metadata, w3) \<Rightarrow>
                          (case prepare_session_record dev sid metadata of
                             Inl e \<Rightarrow>
                               (False, stats\<lparr>parse_failed := parse_failed stats + 1\<rparr>,
                                logging ERROR ''scan_metadata: processing failed'' sid w3)
                           | Inr rec \<Rightarrow>
                               (case insert_session rec w3 of
                                  (True, w4) \<Rightarrow>
                                    if debug_mode \<and> 5 \<le> sessions_new stats + 1
                                    then (True, stats\<lparr>sessions_new := sessions_new stats + 1\<rparr>,
                                          logging WARNING ''scan_metadata: debug limit'' [] w4)
                                    else (False, stats\<lparr>sessions_new := sessions_new stats + 1\<rparr>, w4)
                                | (False, w4) \<Rightarrow>
                                    if debug_mode \<and> 5 \<le> sessions_new stats
                                    then (True, stats\<lparr>insert_failed := insert_failed stats + 1\<rparr>,
                                          logging WARNING ''scan_metadata: debug limit'' []
                                            (logging WARNING ''scan_metadata: insert failed'' sid w4))
                                    else (False, stats\<lparr>insert_failed := insert_failed stats + 1\<rparr>,
                                          logging WARNING ''scan_metadata: insert failed'' sid
                                            w4)))))))"

fun scan_metadata_sessions ::
  "bucket \<Rightarrow> date option \<Rightarrow> date option \<Rightarrow> bool \<Rightarrow> string \<Rightarrow> string list \<Rightarrow> meta_stats \<Rightarrow> world
     \<Rightarrow> bool \<times> meta_stats \<times> world" where
  "scan_metadata_sessions b start_date end_date debug_mode dev [] stats w = (False, stats, w)"
| "scan_metadata_sessions b start_date end_date debug_mode dev (session_prefix # rest) stats w =
     (case scan_metadata_session b start_date end_date debug_mode dev session_prefix stats w of
        (True, stats1, w1) \<Rightarrow> (True, stats1, w1)
      | (False, stats1, w1) \<Rightarrow>
          scan_metadata_sessions b start_date end_date debug_mode dev rest stats1 w1)"

text \<open>
  How a step of a loop ends: the loop goes on, the function returns, or an exception
  leaves the function.
\<close>

datatype flow = Continue | Return | Raise exn

definition filter_applies :: "string option \<Rightarrow> string \<Rightarrow> bool" where
  "filter_applies device_id_filter dev =
     (case device_id_filter of
        None \<Rightarrow> False
      | Some f \<Rightarrow> f \<noteq> [] \<and> dev \<noteq> f)"

definition valid_sessions :: "string list \<Rightarrow> string list" where
  "valid_sessions session_prefixes =
     filter (\<lambda>p. startswith (session_id_of p) ''session_'') session_prefixes"

text \<open>The body of the loop over the device prefixes (lines 473-579).\<close>

definition scan_metadata_device ::
  "bucket \<Rightarrow> date option \<Rightarrow> date option \<Rightarrow> string option \<Rightarrow> bool \<Rightarrow> string
     \<Rightarrow> meta_stats \<Rightarrow> device_config \<Rightarrow> world \<Rightarrow> flow \<times> meta_stats \<times> device_config \<times> world" where
  "scan_metadata_device b start_date end_date device_id_filter debug_mode device_prefix
       stats device_config w =
     (let dev = rstrip_slash device_prefix
      in if filter_applies device_id_filter dev then (Continue, stats, device_config, w)
         else
           (case ensure_device_exists dev device_config w of
              (False, config1, w1) \<Rightarrow> (Continue, stats, config1, w1)
            | (True, config1, w1) \<Rightarrow>
                (case list_prefixes b device_prefix w1 of
                   (Inl e, w2) \<Rightarrow>
                     (Raise e, stats\<lparr>devices_scanned := devices_scanned stats + 1\<rparr>, config1, w2)
                 | (Inr session_prefixes, w2) \<Rightarrow>
                     (case scan_metadata_sessions b start_date end_date debug_mode dev
                             (valid_sessions session_prefixes)
                             (stats\<lparr>devices_scanned := devices_scanned stats + 1\<rparr>) w2 of
                        (True, stats3, w3) \<Rightarrow> (Return, stats3, config1, w3)
                      | (False, stats3, w3) \<Rightarrow> (Continue, stats3, config1, w3)))))"

fun scan_metadata_devices ::
  "bucket \<Rightarrow> date option \<Rightarrow> date option \<Rightarrow> string option \<Rightarrow> bool \<Rightarrow> string list
     \<Rightarrow> meta_stats \<Rightarrow> device_config \<Rightarrow> world \<Rightarrow> flow \<times> meta_stats \<times> device_config \<times> world" where
  "scan_metadata_devices b start_date end_date device_id_filter debug_mode [] stats config w =
     (Continue, stats, config, w)"
| "scan_metadata_devices b start_date end_date device_id_filter debug_mode (device_prefix # rest)
       stats config w =
     (case scan_metadata_device b start_date end_date device_id_filter debug_mode device_prefix
             stats config w of
        (Continue, stats1, config1, w1) \<Rightarrow>
          scan_metadata_devices b start_date end_date device_id_filter debug_mode rest
            stats1 config1 w1
      | (fl, stats1, config1, w1) \<Rightarrow> (fl, stats1, config1, w1))"

text \<open>
  \<open>scan_metadata\<close>: the statistics, or the exception that left the function; the
  device configuration (the dictionary is changed in place) and the world afterwards.
\<close>

definition scan_metadata ::
  "bucket \<Rightarrow> device_config \<Rightarrow> date option \<Rightarrow> date option \<Rightarrow> string option \<Rightarrow> bool \<Rightarrow> world
     \<Rightarrow> (exn + meta_stats) \<times> device_config \<times> world" where
  "scan_metadata b device_config start_date end_date device_id_filter debug_mode w =
     (case list_prefixes b [] w of
        (Inl e, w1) \<Rightarrow> (Inl e, device_config, w1)
      | (Inr device_prefixes, w1) \<Rightarrow>
          (case scan_metadata_devices b start_date end_date device_id_filter debug_mode
                  device_prefixes meta_stats0 device_config w1 of
             (Raise e, stats2, config2, w2) \<Rightarrow> (Inl e, config2, w2)
           | (_, stats2, config2, w2) \<Rightarrow> (Inr stats2, config2, w2)))"

text \<open>
  A run of the Metadata phase as \<open>main\<close> does it (lines 1082-1098): the device
  configuration is loaded from the database, then \<open>scan_metadata\<close> runs.
\<close>

definition metadata_phase ::
  "bucket \<Rightarrow> date option \<Rightarrow> date option \<Rightarrow> string option \<Rightarrow> bool \<Rightarrow> world
     \<Rightarrow> (exn + meta_stats) \<times> world" where
  "metadata_phase b start_date end_date device_id_filter debug_mode w =
     (case load_device_config w of
        (device_config, w1) \<Rightarrow>
          (case scan_metadata b device_config start_date end_date device_id_filter debug_mode w1 of
             (r, config2, w2) \<Rightarrow> (r, w2)))"

section \<open>The Segment phase (info\_scan.py, lines 626-841)\<close>

text \<open>
  The counters of \<open>scan_segments\<close>, in the order of the dictionary \<^verbatim>\<open>stats\<close> (lines
  645-655): devices scanned, sessions scanned, sessions processed, segments new,
  segments that exist already, sessions skipped by the date filter, segment numbers
  without a pair, file names that are not valid, and sessions without a Session row.
\<close>

record seg_stats =
  seg_devices_scanned :: nat
  seg_sessions_scanned :: nat
  sessions_processed :: nat
  segments_new :: nat
  segments_existing :: nat
  seg_sessions_skipped :: nat
  segments_unpaired :: nat
  invalid_filenames :: nat
  sessions_missing :: nat

definition seg_stats0 :: seg_stats where
  "seg_stats0 = \<lparr>seg_devices_scanned = 0, seg_sessions_scanned = 0, sessions_processed = 0,
                 segments_new = 0, segments_existing = 0, seg_sessions_skipped = 0,
                 segments_unpaired = 0, invalid_filenames = 0, sessions_missing = 0\<rparr>"

text \<open>
  \<^verbatim>\<open>segments_dict\<close> maps a segment number to the files found for it. The three keys of
  a camera (\<^verbatim>\<open>down_file_name\<close>, \<^verbatim>\<open>down_oss_path\<close>, \<^verbatim>\<open>down_file_size_bytes\<close>, and the same
  for \<^verbatim>\<open>front\<close>) are always set together, so an entry is a pair of optional files: the
  down file and the front file. The dictionary keeps the order of insertion;
  \<open>dict_update\<close> is the access \<^verbatim>\<open>segments_dict[k]\<close> of a \<^verbatim>\<open>defaultdict(dict)\<close> followed by
  the assignments.
\<close>

datatype camera_file = CameraFile (file_name: string) (oss_path: string) (file_size_bytes: int)

type_synonym seg_files = "camera_file option \<times> camera_file option"

fun dict_update ::
  "string \<Rightarrow> (seg_files \<Rightarrow> seg_files) \<Rightarrow> (string \<times> seg_files) list \<Rightarrow> (string \<times> seg_files) list" where
  "dict_update k f [] = [(k, f (None, None))]"
| "dict_update k f ((k', v) # rest) =
     (if k = k' then (k', f v) # rest else (k', v) # dict_update k f rest)"

text \<open>
  The body of the loop over the MP4 objects of a session (lines 742-765): the dictionary
  and the number of invalid file names afterwards, or the exception that a size lookup
  raised.
\<close>

definition group_object ::
  "bucket \<Rightarrow> string \<Rightarrow> string \<Rightarrow> (string \<times> seg_files) list \<Rightarrow> nat \<Rightarrow> world
     \<Rightarrow> (exn + (string \<times> seg_files) list \<times> nat) \<times> world" where
  "group_object b bname obj_key segments_dict invalid w =
     (let filename = last_component obj_key;
          (camera_type, seg_number) = parse_mp4_filename filename
      in if camera_type = [] \<or> seg_number = []
         then (Inr (segments_dict, invalid + 1),
               logging WARNING ''scan_segments: invalid file name'' filename w)
         else
           (case get_object_size b obj_key w of
              (Inl e, w1) \<Rightarrow> (Inl e, w1)
            | (Inr file_size, w1) \<Rightarrow>
                let path = ''oss://'' @ bname @ ''/'' @ obj_key;
                    camera_lower = lower camera_type
                in if contains camera_lower ''down''
                   then (Inr (dict_update seg_number
                                (\<lambda>(dn, fr). (Some (CameraFile filename path file_size), fr))
                                segments_dict, invalid), w1)
                   else if contains camera_lower ''front''
                   then (Inr (dict_update seg_number
                                (\<lambda>(dn, fr). (dn, Some (CameraFile filename path file_size)))
                                segments_dict, invalid), w1)
                   else (Inr (segments_dict, invalid + 1),
                         logging WARNING ''scan_segments: unknown camera type'' filename w1)))"

fun group_objects ::
  "bucket \<Rightarrow> string \<Rightarrow> string list \<Rightarrow> (string \<times> seg_files) list \<Rightarrow> nat \<Rightarrow> world
     \<Rightarrow> (exn + (string \<times> seg_files) list \<times> nat) \<times> world" where
  "group_objects b bname [] segments_dict invalid w = (Inr (segments_dict, invalid), w)"
| "group_objects b bname (obj_key # rest) segments_dict invalid w =
     (case group_object b bname obj_key segments_dict invalid w of
        (Inl e, w1) \<Rightarrow> (Inl e, w1)
      | (Inr (dict1, invalid1), w1) \<Rightarrow> group_objects b bname rest dict1 invalid1 w1)"

text \<open>
  \<^verbatim>\<open>sorted(segments_dict.items())\<close>: the keys are distinct, so the items are ordered by
  their keys, and strings compare by their code points.
\<close>

fun str_le :: "string \<Rightarrow> string \<Rightarrow> bool" where
  "str_le [] t = True"
| "str_le (c # s) [] = False"
| "str_le (c # s) (d # t) = ((of_char c :: nat) < of_char d \<or> (c = d \<and> str_le s t))"

fun insert_item :: "string \<times> 'a \<Rightarrow> (string \<times> 'a) list \<Rightarrow> (string \<times> 'a) list" where
  "insert_item x [] = [x]"
| "insert_item x (y # ys) = (if str_le (fst x) (fst y) then x # y # ys else y # insert_item x ys)"

definition sorted_items :: "(string \<times> 'a) list \<Rightarrow> (string \<times> 'a) list" where
  "sorted_items items = foldr insert_item items []"

text \<open>
  The body of the loop over the sorted items (lines 775-815). The state of the loop is
  the three counters of the session and the set of new segments; \<open>new_before\<close> is the
  counter of new segments before this session, which the limit of the debug mode reads.
  The first component says whether the function returned.
\<close>

type_synonym pair_state = "nat \<times> nat \<times> nat \<times> (string \<times> string) set"

definition pair_segment ::
  "bool \<Rightarrow> nat \<Rightarrow> string \<Rightarrow> string \<times> seg_files \<Rightarrow> pair_state \<Rightarrow> world
     \<Rightarrow> bool \<times> pair_state \<times> world" where
  "pair_segment debug_mode new_before sid item st w =
     (case st of (paired_new, paired_exists, unpaired, new_segments) \<Rightarrow>
      (case item of
         (seg_number, (Some dn, Some fr)) \<Rightarrow>
           (case is_segment_exists sid seg_number w of
              (True, w1) \<Rightarrow> (False, (paired_new, paired_exists + 1, unpaired, new_segments), w1)
            | (False, w1) \<Rightarrow>
                (case insert_segment
                        \<lparr>seg_session_id = sid, segment_number = seg_number,
                         down_file_name = file_name dn, down_oss_path = oss_path dn,
                         down_file_size_bytes = file_size_bytes dn,
                         front_file_name = file_name fr, front_oss_path = oss_path fr,
                         front_file_size_bytes = file_size_bytes fr\<rparr> w1 of
                   (True, w2) \<Rightarrow>
                     if debug_mode \<and> 5 \<le> new_before + (paired_new + 1)
                     then (True, (paired_new + 1, paired_exists, unpaired,
                                  insert (sid, seg_number) new_segments),
                           logging WARNING ''scan_segments: debug limit'' [] w2)
                     else (False, (paired_new + 1, paired_exists, unpaired,
                                   insert (sid, seg_number) new_segments), w2)
                 | (False, w2) \<Rightarrow>
                     if debug_mode \<and> 5 \<le> new_before + paired_new
                     then (True, (paired_new, paired_exists, unpaired, new_segments),
                           logging WARNING ''scan_segments: debug limit'' [] w2)
                     else (False, (paired_new, paired_exists, unpaired, new_segments), w2)))
       | (seg_number, _) \<Rightarrow>
           (False, (paired_new, paired_exists, unpaired + 1, new_segments), w)))"

fun pair_segments ::
  "bool \<Rightarrow> nat \<Rightarrow> string \<Rightarrow> (string \<times> seg_files) list \<Rightarrow> pair_state \<Rightarrow> world
     \<Rightarrow> bool \<times> pair_state \<times> world" where
  "pair_segments debug_mode new_before sid [] st w = (False, st, w)"
| "pair_segments debug_mode new_before sid (item # rest) st w =
     (case pair_segment debug_mode new_before sid item st w of
        (True, st1, w1) \<Rightarrow> (True, st1, w1)
      | (False, st1, w1) \<Rightarrow> pair_segments debug_mode new_before sid rest st1 w1)"

text \<open>The body of the loop over the sessions of a device (lines 699-825).\<close>

definition scan_segments_session ::
  "bucket \<Rightarrow> string \<Rightarrow> date option \<Rightarrow> date option \<Rightarrow> bool \<Rightarrow> string
     \<Rightarrow> seg_stats \<Rightarrow> (string \<times> string) set \<Rightarrow> world
     \<Rightarrow> flow \<times> seg_stats \<times> (string \<times> string) set \<times> world" where
  "scan_segments_session b bname start_date end_date debug_mode session_prefix
       stats0 new_segments w =
     (let sid = session_id_of session_prefix;
          stats = stats0\<lparr>seg_sessions_scanned := seg_sessions_scanned stats0 + 1\<rparr>;
          (date_str, time_str, session_date) = parse_session_id sid
      in if \<not> is_date_in_range session_date start_date end_date
         then (Continue, stats\<lparr>seg_sessions_skipped := seg_sessions_skipped stats + 1\<rparr>,
               new_segments, w)
         else
           (case is_session_exists sid w of
              (False, w1) \<Rightarrow>
                (Continue, stats\<lparr>sessions_missing := sessions_missing stats + 1\<rparr>, new_segments,
                 logging WARNING ''scan_segments: session missing'' sid w1)
            | (True, w1) \<Rightarrow>
                (let stats2 = stats\<lparr>sessions_processed := sessions_processed stats + 1\<rparr>
                 in case list_objects b (session_prefix @ ''segments/'') w1 of
                      (Inl e, w2) \<Rightarrow>
                        (Continue, stats2, new_segments,
                         logging ERROR ''scan_segments: cannot list objects'' sid w2)
                    | (Inr objects, w2) \<Rightarrow>
                        (let mp4_objects = filter (\<lambda>obj. endswith obj ''.mp4'') objects
                         in if mp4_objects = [] then (Continue, stats2, new_segments, w2)
                            else
                              (case group_objects b bname mp4_objects [] 0 w2 of
                                 (Inl e, w3) \<Rightarrow> (Raise e, stats2, new_segments, w3)
                               | (Inr (segments_dict, invalid), w3) \<Rightarrow>
                                   (let stats3 = stats2\<lparr>invalid_filenames :=
                                                          invalid_filenames stats2 + invalid\<rparr>
                                    in case pair_segments debug_mode (segments_new stats3) sid
                                              (sorted_items segments_dict)
                                              (0, 0, 0, new_segments) w3 of
                                         (stop, (paired_new, paired_exists, unpaired, new1), w4) \<Rightarrow>
                                           (if stop then Return else Continue,
                                            stats3\<lparr>segments_new := segments_new stats3 + paired_new,
                                                   segments_existing :=
                                                     segments_existing stats3 + paired_exists,
                                                   segments_unpaired :=
                                                     segments_unpaired stats3 + unpaired\<rparr>,
                                            new1, w4)))))))"

fun scan_segments_sessions ::
  "bucket \<Rightarrow> string \<Rightarrow> date option \<Rightarrow> date option \<Rightarrow> bool \<Rightarrow> string list
     \<Rightarrow> seg_stats \<Rightarrow> (string \<times> string) set \<Rightarrow> world
     \<Rightarrow> flow \<times> seg_stats \<times> (string \<times> string) set \<times> world" where
  "scan_segments_sessions b bname start_date end_date debug_mode [] stats new_segments w =
     (Continue, stats, new_segments, w)"
| "scan_segments_sessions b bname start_date end_date debug_mode (session_prefix # rest)
       stats new_segments w =
     (case scan_segments_session b bname start_date end_date debug_mode session_prefix
             stats new_segments w of
        (Continue, stats1, new1, w1) \<Rightarrow>
          scan_segments_sessions b bname start_date end_date debug_mode rest stats1 new1 w1
      | (fl, stats1, new1, w1) \<Rightarrow> (fl, stats1, new1, w1))"

text \<open>The body of the loop over the device prefixes (lines 664-835).\<close>

definition scan_segments_device ::
  "bucket \<Rightarrow> string \<Rightarrow> device_config \<Rightarrow> date option \<Rightarrow> date option \<Rightarrow> string option \<Rightarrow> bool
     \<Rightarrow> string \<Rightarrow> seg_stats \<Rightarrow> (string \<times> string) set \<Rightarrow> world
     \<Rightarrow> flow \<times> seg_stats \<times> (string \<times> string) set \<times> world" where
  "scan_segments_device b bname device_config start_date end_date device_id_filter debug_mode
       device_prefix stats new_segments w =
     (let dev = rstrip_slash device_prefix
      in if filter_applies device_id_filter dev then (Continue, stats, new_segments, w)
         else
           (case device_config dev of
              None \<Rightarrow> (Continue, stats, new_segments, w)
            | Some c \<Rightarrow>
                if skip_scan c then (Continue, stats, new_segments, w)
                else
                  (case list_prefixes b device_prefix w of
                     (Inl e, w1) \<Rightarrow>
                       (Raise e, stats\<lparr>seg_devices_scanned := seg_devices_scanned stats + 1\<rparr>,
                        new_segments, w1)
                   | (Inr session_prefixes, w1) \<Rightarrow>
                       scan_segments_sessions b bname start_date end_date debug_mode
                         (valid_sessions session_prefixes)
                         (stats\<lparr>seg_devices_scanned := seg_devices_scanned stats + 1\<rparr>)
                         new_segments w1)))"

fun scan_segments_devices ::
  "bucket \<Rightarrow> string \<Rightarrow> device_config \<Rightarrow> date option \<Rightarrow> date option \<Rightarrow> string option \<Rightarrow> bool
     \<Rightarrow> string list \<Rightarrow> seg_stats \<Rightarrow> (string \<times> string) set \<Rightarrow> world
     \<Rightarrow> flow \<times> seg_stats \<times> (string \<times> string) set \<times> world" where
  "scan_segments_devices b bname device_config start_date end_date device_id_filter debug_mode
       [] stats new_segments w = (Continue, stats, new_segments, w)"
| "scan_segments_devices b bname device_config start_date end_date device_id_filter debug_mode
       (device_prefix # rest) stats new_segments w =
     (case scan_segments_device b bname device_config start_date end_date device_id_filter
             debug_mode device_prefix stats new_segments w of
        (Continue, stats1, new1, w1) \<Rightarrow>
          scan_segments_devices b bname device_config start_date end_date device_id_filter
            debug_mode rest stats1 new1 w1
      | (fl, stats1, new1, w1) \<Rightarrow> (fl, stats1, new1, w1))"

text \<open>
  \<open>scan_segments\<close>: the statistics and the set of new segments, or the exception that
  left the function; and the world afterwards.
\<close>

definition scan_segments ::
  "bucket \<Rightarrow> string \<Rightarrow> device_config \<Rightarrow> date option \<Rightarrow> date option \<Rightarrow> string option \<Rightarrow> bool
     \<Rightarrow> world \<Rightarrow> (exn + seg_stats \<times> (string \<times> string) set) \<times> world" where
  "scan_segments b bname device_config start_date end_date device_id_filter debug_mode w =
     (case list_prefixes b [] w of
        (Inl e, w1) \<Rightarrow> (Inl e, w1)
      | (Inr device_prefixes, w1) \<Rightarrow>
          (case scan_segments_devices b bname device_config start_date end_date
                  device_id_filter debug_mode device_prefixes seg_stats0 {} w1 of
             (Raise e, stats2, new2, w2) \<Rightarrow> (Inl e, w2)
           | (_, stats2, new2, w2) \<Rightarrow> (Inr (stats2, new2), w2)))"

section \<open>Predicates used in the statements and proofs\<close>

text \<open>The part of the world that is the database: the three tables and the open
  transaction.\<close>

definition db_of ::
  "world \<Rightarrow> session_record list \<times> segment_record list \<times> device_row list \<times> db_write list" where
  "db_of w = (sessions_tbl w, segments_tbl w, devices_tbl w, uncommitted w)"

text \<open>
  \<open>listed_as objects bname seg is_down fname path\<close>: among the listed keys there is an
  MP4 object whose file name is \<open>fname\<close>, whose path is \<open>path\<close>, whose segment number is
  \<open>seg\<close> and which the scanner takes for a down file (its camera label contains "down")
  or for a front file (its label contains "front" and not "down").
\<close>

definition listed_as :: "string list \<Rightarrow> string \<Rightarrow> string \<Rightarrow> bool \<Rightarrow> string \<Rightarrow> string \<Rightarrow> bool" where
  "listed_as objects bname seg is_down fname path =
     (\<exists>k \<in> set objects.
        endswith k ''.mp4'' \<and> fname = last_component k \<and> path = ''oss://'' @ bname @ ''/'' @ k
        \<and> fst (parse_mp4_filename (last_component k)) \<noteq> []
        \<and> snd (parse_mp4_filename (last_component k)) = seg
        \<and> contains (lower (fst (parse_mp4_filename (last_component k)))) ''down'' = is_down
        \<and> (is_down \<or> contains (lower (fst (parse_mp4_filename (last_component k)))) ''front''))"

definition entry_ok :: "string list \<Rightarrow> string \<Rightarrow> string \<times> seg_files \<Rightarrow> bool" where
  "entry_ok objects bname item =
     (case item of (seg, (dn, fr)) \<Rightarrow>
        (case dn of None \<Rightarrow> True
         | Some f \<Rightarrow> listed_as objects bname seg True (file_name f) (oss_path f))
        \<and> (case fr of None \<Rightarrow> True
           | Some f \<Rightarrow> listed_as objects bname seg False (file_name f) (oss_path f)))"

text \<open>
  \<open>row_paired objects bname r\<close>: both files of the segment row \<open>r\<close> are listed objects
  with the row's segment number, one a down file and one a front file.
\<close>

definition row_paired :: "string list \<Rightarrow> string \<Rightarrow> segment_record \<Rightarrow> bool" where
  "row_paired objects bname r =
     (listed_as objects bname (segment_number r) True (down_file_name r) (down_oss_path r)
      \<and> listed_as objects bname (segment_number r) False (front_file_name r) (front_oss_path r))"

text \<open>
  \<open>segment_evidence b bname sessions r\<close>: the session of the row \<open>r\<close> has a row in
  \<open>sessions\<close>, and the listing of the segment directory of a session folder with that
  session id holds the pair of files of \<open>r\<close>.
\<close>

definition segment_evidence :: "bucket \<Rightarrow> string \<Rightarrow> session_record list \<Rightarrow> segment_record \<Rightarrow> bool" where
  "segment_evidence b bname sessions r =
     (seg_session_id r \<in> set (map session_id sessions)
      \<and> (\<exists>session_prefix. session_id_of session_prefix = seg_session_id r
            \<and> row_paired (concat (object_pages b (session_prefix @ ''segments/''))) bname r))"

text \<open>
  \<open>seg_run P (w, ns, n) (w', ns', n')\<close>: from the world \<open>w\<close> to the world \<open>w'\<close> the
  sessions and devices did not change, no transaction is open, the segment table grew
  at its end by rows with new and distinct keys that all satisfy \<open>P\<close>, the set of new
  segments grew by exactly the keys of these rows, and the counter by their number.
\<close>

definition seg_run ::
  "(segment_record \<Rightarrow> bool) \<Rightarrow> world \<times> (string \<times> string) set \<times> nat
     \<Rightarrow> world \<times> (string \<times> string) set \<times> nat \<Rightarrow> bool" where
  "seg_run P s s' =
     (case s of (w, ns, n) \<Rightarrow> case s' of (w', ns', n') \<Rightarrow>
        sessions_tbl w' = sessions_tbl w \<and> devices_tbl w' = devices_tbl w \<and> uncommitted w' = []
        \<and> (\<exists>added. segments_tbl w' = segments_tbl w @ added
              \<and> distinct (map segment_key added)
              \<and> set (map segment_key added) \<inter> set (map segment_key (segments_tbl w)) = {}
              \<and> list_all P added
              \<and> ns' = ns \<union> set (map segment_key added)
              \<and> n' = n + length added))"

text \<open>The rows that a run added to the segment table.\<close>

definition rows_added :: "world \<Rightarrow> world \<Rightarrow> segment_record list" where
  "rows_added w w' = drop (length (segments_tbl w)) (segments_tbl w')"

text \<open>
  \<open>has_camera_file objects seg is_down\<close>: the listing holds an MP4 object with the segment
  number \<open>seg\<close> that the scanner takes for a down file, or for a front file.
\<close>

definition has_camera_file :: "string list \<Rightarrow> string \<Rightarrow> bool \<Rightarrow> bool" where
  "has_camera_file objects seg is_down =
     (\<exists>k \<in> set objects.
        endswith k ''.mp4''
        \<and> fst (parse_mp4_filename (last_component k)) \<noteq> []
        \<and> snd (parse_mp4_filename (last_component k)) = seg
        \<and> contains (lower (fst (parse_mp4_filename (last_component k)))) ''down'' = is_down
        \<and> (is_down \<or> contains (lower (fst (parse_mp4_filename (last_component k)))) ''front''))"

section \<open>A small bucket and database for the examples\<close>

text \<open>
  One device, \<open>7393\<close>, with three session folders. The first has the pair of files of
  segment 0002 and only the down file of segment 0001; the second has a pair of files;
  the third has down files only. The database of \<open>example_world\<close> knows the device and
  has Session rows for the first and the third session, not for the second.
\<close>

definition example_bucket :: bucket where
  "example_bucket =
     \<lparr>bucket_name = ''fpv'',
      prefix_list = (\<lambda>p. if p = [] then [''7393/'']
                         else if p = ''7393/''
                         then [''7393/session_20250115_101010_1/'',
                               ''7393/session_20250116_090000_2/'',
                               ''7393/session_20250117_090000_3/'']
                         else []),
      object_pages = (\<lambda>p.
         if p = ''7393/session_20250115_101010_1/segments/''
         then [[''7393/session_20250115_101010_1/segments/cam-down_sbs_0002.mp4'',
                ''7393/session_20250115_101010_1/segments/cam-front_sbs_0002.mp4''],
               [''7393/session_20250115_101010_1/segments/cam-down_sbs_0001.mp4'']]
         else if p = ''7393/session_20250116_090000_2/segments/''
         then [[''7393/session_20250116_090000_2/segments/cam-down_sbs_0001.mp4'',
                ''7393/session_20250116_090000_2/segments/cam-front_sbs_0001.mp4'']]
         else if p = ''7393/session_20250117_090000_3/segments/''
         then [[''7393/session_20250117_090000_3/segments/cam-down_sbs_0001.mp4'',
                ''7393/session_20250117_090000_3/segments/cam-down_sbs_0002.mp4'']]
         else []),
      object_exists = (\<lambda>k. endswith k ''/metadata.json''),
      content_length = (\<lambda>k. 1048576),
      object_json = (\<lambda>k. Some (JObj [(''task_info'', JObj [(''scene'', JStr ''lab'')])]))\<rparr>"

definition example_session :: "string \<Rightarrow> session_record" where
  "example_session sid =
     \<lparr>session_id = sid, sess_device_id = ''7393'', collect_date = [], collect_time = [],
      start_time_utc = JStr [], end_time_utc = JStr [], task_description = JNull,
      scene = JNull, collect_site = JStr ''N/A'', operator_info = JNull, device_model = JNull,
      platform = JNull, resolution = JNull, fps = JNull, num_cameras = 0,
      raw_metadata_json = JObj []\<rparr>"

definition empty_world :: world where
  "empty_world =
     \<lparr>oss_faults = [], oss_calls = [], sessions_tbl = [], segments_tbl = [], devices_tbl = [],
      uncommitted = [], db_faults = [], db_trace = [], logged = []\<rparr>"

definition example_world :: world where
  "example_world =
     empty_world\<lparr>sessions_tbl := [example_session ''session_20250115_101010_1'',
                                 example_session ''session_20250117_090000_3''],
                 devices_tbl := [default_device_row ''7393'']\<rparr>"

definition example_config :: device_config where
  "example_config = Map.empty(''7393'' \<mapsto> default_device_cfg)"

text \<open>
  The same database, with a bucket whose fifth and sixth requests fail: in the Segment
  phase these are the size lookups of the two files of segment 0002.
\<close>

definition size_fault_world :: world where
  "size_fault_world = example_world\<lparr>oss_faults := [False, False, False, False, True, True]\<rparr>"




section \<open>Command parsing: properties\<close>




lemma dropWhile_none:
  "list_all (\<lambda>c. \<not> P c) s \<Longrightarrow> dropWhile P s = s"
  by (induction s) auto

lemma strip_token:
  "list_all (\<lambda>c. \<not> is_space c) s \<Longrightarrow> strip s = s"
  by (simp add: strip_def lstrip_def rstrip_def dropWhile_none list_all_iff)

lemma device_char_not_space:
  "is_word_char c \<or> c = CHR ''-'' \<Longrightarrow> \<not> is_space c"
  by (auto simp: is_word_char_def is_space_def)

















section \<open>The task executor: properties\<close>








section \<open>Bucket operations: what they change and what they return\<close>

lemma db_of_logging: "db_of (logging l s t w) = db_of w"
  by (simp add: db_of_def logging_def)

lemma oss_request_db: "oss_request c w = (f, w') \<Longrightarrow> db_of w' = db_of w"
  by (auto simp: oss_request_def db_of_def split: list.splits)

lemma retry_db:
  assumes "\<And>w v w'. f w = (v, w') \<Longrightarrow> db_of w' = db_of w"
  shows "retry n f w = (v, w') \<Longrightarrow> db_of w' = db_of w"
proof (induction n arbitrary: w)
  case 0
  then show ?case by simp
next
  case (Suc n)
  obtain r w1 where f: "f w = (r, w1)" by (cases "f w")
  have d: "db_of w1 = db_of w" using assms f by blast
  show ?case
  proof (cases r)
    case (Inl e)
    with Suc f have "retry n f w1 = (v, w')" by simp
    with Suc.IH d show ?thesis by simp
  next
    case (Inr x)
    with Suc f d show ?thesis by auto
  qed
qed

lemma retry_result:
  "retry n f w = (Inr v, w') \<Longrightarrow> \<exists>w1 w2. f w1 = (Inr v, w2)"
proof (induction n arbitrary: w)
  case 0
  then show ?case by simp
next
  case (Suc n)
  obtain r w1 where f: "f w = (r, w1)" by (cases "f w")
  show ?case
  proof (cases r)
    case (Inl e)
    with Suc f show ?thesis by simp
  next
    case (Inr x)
    with Suc f show ?thesis by auto
  qed
qed

lemma list_prefixes_db: "list_prefixes b p w = (r, w') \<Longrightarrow> db_of w' = db_of w"
  unfolding list_prefixes_def
  by (erule retry_db [rotated])
     (auto simp: list_prefixes_body_def split: prod.splits bool.splits dest: oss_request_db)

lemma list_prefixes_result:
  assumes "list_prefixes b p w = (Inr ps, w')"
  shows "ps = prefix_list b p"
proof -
  from assms obtain w1 w2 where h: "list_prefixes_body b p w1 = (Inr ps, w2)"
    unfolding list_prefixes_def by (blast dest: retry_result)
  obtain f w3 where r: "oss_request (ListPrefixes p) w1 = (f, w3)"
    by (cases "oss_request (ListPrefixes p) w1")
  from h r show ?thesis
    by (cases f) (simp_all add: list_prefixes_body_def)
qed

lemma fetch_pages_db:
  "fetch_pages prefix pages tok acc w = (r, w') \<Longrightarrow> db_of w' = db_of w"
  by (induction pages arbitrary: tok acc w)
     (auto split: prod.splits bool.splits if_splits dest: oss_request_db)

lemma fetch_pages_result:
  "fetch_pages prefix pages tok acc w = (Inr objs, w') \<Longrightarrow> objs = acc @ concat pages"
proof (induction pages arbitrary: tok acc w)
  case Nil
  then show ?case by (auto split: prod.splits bool.splits)
next
  case (Cons page pages)
  obtain f w1 where r: "oss_request (ListPage prefix tok) w = (f, w1)"
    by (cases "oss_request (ListPage prefix tok) w")
  show ?case
  proof (cases "f \<or> pages = []")
    case True
    with Cons.prems r show ?thesis by (cases f) auto
  next
    case False
    with Cons.prems r have "fetch_pages prefix pages (Suc tok) (acc @ page) w1 = (Inr objs, w')"
      by simp
    from Cons.IH [OF this] show ?thesis by simp
  qed
qed

lemma list_objects_db: "list_objects b p w = (r, w') \<Longrightarrow> db_of w' = db_of w"
  unfolding list_objects_def
  by (erule retry_db [rotated]) (auto simp: list_objects_body_def dest: fetch_pages_db)

lemma list_objects_result:
  "list_objects b p w = (Inr objs, w') \<Longrightarrow> objs = concat (object_pages b p)"
  unfolding list_objects_def
  by (drule retry_result) (auto simp: list_objects_body_def dest: fetch_pages_result)

lemma get_object_size_body_db:
  "get_object_size_body b k w = (r, w') \<Longrightarrow> db_of w' = db_of w"
  by (auto simp: get_object_size_body_def head_object_def db_of_logging
           split: prod.splits bool.splits sum.splits dest: oss_request_db)

lemma get_object_size_db: "get_object_size b k w = (r, w') \<Longrightarrow> db_of w' = db_of w"
  unfolding get_object_size_def
  by (erule retry_db [rotated]) (rule get_object_size_body_db)

lemma get_object_size_body_returns:
  "\<exists>n w'. get_object_size_body b k w = (Inr n, w')"
  by (auto simp: get_object_size_body_def split: prod.splits sum.splits)

lemma get_object_size_once:
  "get_object_size b k w = get_object_size_body b k w"
proof -
  obtain n w' where "get_object_size_body b k w = (Inr n, w')"
    using get_object_size_body_returns by blast
  then show ?thesis
    by (simp add: get_object_size_def numeral_eq_Suc)
qed

section \<open>Database operations: what they change\<close>

lemma db_request_db: "db_request st w = (f, w') \<Longrightarrow> db_of w' = db_of w"
  by (auto simp: db_request_def db_of_def split: list.splits)

lemma db_request_fields:
  "db_request st w = (f, w') \<Longrightarrow>
     sessions_tbl w' = sessions_tbl w \<and> segments_tbl w' = segments_tbl w
     \<and> devices_tbl w' = devices_tbl w \<and> uncommitted w' = uncommitted w
     \<and> oss_calls w' = oss_calls w \<and> oss_faults w' = oss_faults w \<and> logged w' = logged w
     \<and> db_trace w' = db_trace w @ [st]"
  by (auto simp: db_request_def split: list.splits)

lemma is_session_exists_db: "is_session_exists sid w = (r, w') \<Longrightarrow> db_of w' = db_of w"
  by (auto simp: is_session_exists_def db_of_logging split: prod.splits bool.splits dest: db_request_db)

lemma is_session_exists_True:
  assumes "is_session_exists sid w = (True, w')"
  shows "sid \<in> set (map session_id (visible_sessions w))"
proof -
  obtain f w1 where r: "db_request (SelectSession sid) w = (f, w1)"
    by (cases "db_request (SelectSession sid) w")
  with assms have "sid \<in> set (map session_id (visible_sessions w1))"
    by (cases f) (auto simp: is_session_exists_def)
  moreover from r have "visible_sessions w1 = visible_sessions w"
    by (simp add: visible_sessions_def db_request_fields)
  ultimately show ?thesis by simp
qed

lemma is_segment_exists_db: "is_segment_exists sid n w = (r, w') \<Longrightarrow> db_of w' = db_of w"
  by (auto simp: is_segment_exists_def db_of_logging split: prod.splits bool.splits dest: db_request_db)

lemma insert_handler_effect:
  "insert_handler site subj e w = (ok, w') \<Longrightarrow>
     \<not> ok \<and> sessions_tbl w' = sessions_tbl w \<and> segments_tbl w' = segments_tbl w
     \<and> devices_tbl w' = devices_tbl w \<and> uncommitted w' = []"
  by (auto simp: insert_handler_def rollback_def logging_def split: if_splits)

lemma commit_effect:
  "commit w = (r, w') \<Longrightarrow>
     (case r of
        Inl e \<Rightarrow> db_of w' = db_of w
      | Inr u \<Rightarrow> sessions_tbl w' = visible_sessions w \<and> segments_tbl w' = visible_segments w
                \<and> devices_tbl w' = visible_devices w \<and> uncommitted w' = [])"
proof -
  assume a: "commit w = (r, w')"
  obtain f w1 where r: "db_request Commit w = (f, w1)"
    by (cases "db_request Commit w")
  have v: "visible_sessions w1 = visible_sessions w" "visible_segments w1 = visible_segments w"
    "visible_devices w1 = visible_devices w"
    using r by (simp_all add: visible_sessions_def visible_segments_def visible_devices_def
        db_request_fields)
  from a r v show ?thesis
    by (cases f) (auto simp: commit_def dest: db_request_db)
qed

lemma insert_segment_effect:
  assumes "uncommitted w = []" and "insert_segment r w = (ok, w')"
  shows "sessions_tbl w' = sessions_tbl w \<and> devices_tbl w' = devices_tbl w
         \<and> uncommitted w' = []
         \<and> (if ok then segments_tbl w' = segments_tbl w @ [r]
                        \<and> segment_key r \<notin> set (map segment_key (segments_tbl w))
             else segments_tbl w' = segments_tbl w)"
proof -
  obtain f w1 where q: "db_request (InsertSegment (seg_session_id r) (segment_number r)) w = (f, w1)"
    by (cases "db_request (InsertSegment (seg_session_id r) (segment_number r)) w")
  note f1 = db_request_fields [OF q]
  have vis: "visible_segments w1 = segments_tbl w" "visible_sessions w1 = sessions_tbl w"
    "visible_devices w1 = devices_tbl w"
    using f1 assms(1) by (simp_all add: visible_segments_def visible_sessions_def visible_devices_def)
  show ?thesis
  proof (cases "f \<or> segment_key r \<in> set (map segment_key (segments_tbl w))")
    case True
    then obtain e where "execute_insert_segment r w = (Inl e, w1)"
      using q vis by (cases f) (auto simp: execute_insert_segment_def)
    with assms(2) have "insert_handler ''insert_segment'' (segment_number r) e w1 = (ok, w')"
      by (simp add: insert_segment_def)
    from insert_handler_effect [OF this] f1 show ?thesis by simp
  next
    case False
    define w2 where "w2 = w1\<lparr>uncommitted := uncommitted w1 @ [WriteSegment r]\<rparr>"
    from False q vis have ex: "execute_insert_segment r w = (Inr (), w2)"
      by (auto simp: execute_insert_segment_def w2_def)
    have vis2: "visible_segments w2 = segments_tbl w @ [r]" "visible_sessions w2 = sessions_tbl w"
      "visible_devices w2 = devices_tbl w"
      using f1 assms(1)
      by (simp_all add: w2_def visible_segments_def visible_sessions_def visible_devices_def)
    have flds2: "sessions_tbl w2 = sessions_tbl w" "segments_tbl w2 = segments_tbl w"
      "devices_tbl w2 = devices_tbl w"
      using f1 by (simp_all add: w2_def)
    obtain c w3 where cm: "commit w2 = (c, w3)" by (cases "commit w2")
    show ?thesis
    proof (cases c)
      case (Inl e)
      with ex cm assms(2) have "insert_handler ''insert_segment'' (segment_number r) e w3 = (ok, w')"
        by (simp add: insert_segment_def)
      from insert_handler_effect [OF this] commit_effect [OF cm] Inl flds2
      show ?thesis by (simp add: db_of_def)
    next
      case (Inr u)
      with ex cm assms(2) have "ok" "w' = w3"
        by (simp_all add: insert_segment_def)
      with commit_effect [OF cm] Inr vis2 False show ?thesis by simp
    qed
  qed
qed

section \<open>The Segment phase: what a run adds\<close>

lemma seg_run_refl: "uncommitted w = [] \<Longrightarrow> seg_run P (w, ns, n) (w, ns, n)"
  by (simp add: seg_run_def)

lemma seg_run_trans:
  assumes "seg_run P (w, ns, n) (w1, ns1, n1)" and "seg_run P (w1, ns1, n1) (w2, ns2, n2)"
  shows "seg_run P (w, ns, n) (w2, ns2, n2)"
proof -
  from assms(1) obtain a1 where a1: "segments_tbl w1 = segments_tbl w @ a1"
    "distinct (map segment_key a1)"
    "set (map segment_key a1) \<inter> set (map segment_key (segments_tbl w)) = {}"
    "list_all P a1" "ns1 = ns \<union> set (map segment_key a1)" "n1 = n + length a1"
    and f1: "sessions_tbl w1 = sessions_tbl w" "devices_tbl w1 = devices_tbl w"
    by (auto simp: seg_run_def)
  from assms(2) obtain a2 where a2: "segments_tbl w2 = segments_tbl w1 @ a2"
    "distinct (map segment_key a2)"
    "set (map segment_key a2) \<inter> set (map segment_key (segments_tbl w1)) = {}"
    "list_all P a2" "ns2 = ns1 \<union> set (map segment_key a2)" "n2 = n1 + length a2"
    and f2: "sessions_tbl w2 = sessions_tbl w1" "devices_tbl w2 = devices_tbl w1"
      "uncommitted w2 = []"
    by (auto simp: seg_run_def)
  have "segments_tbl w2 = segments_tbl w @ (a1 @ a2)" using a1 a2 by simp
  moreover have "distinct (map segment_key (a1 @ a2))"
    using a1 a2 by auto
  moreover have "set (map segment_key (a1 @ a2)) \<inter> set (map segment_key (segments_tbl w)) = {}"
    using a1 a2 by auto
  moreover have "list_all P (a1 @ a2)" using a1 a2 by simp
  moreover have "ns2 = ns \<union> set (map segment_key (a1 @ a2))" using a1 a2 by auto
  moreover have "n2 = n + length (a1 @ a2)" using a1 a2 by simp
  ultimately show ?thesis
    unfolding seg_run_def using f1 f2 by (simp only: prod.case) blast
qed

lemma seg_run_db:
  assumes "uncommitted w = []" and "db_of w' = db_of w"
  shows "seg_run P (w, ns, n) (w', ns, n)"
  using assms by (simp add: seg_run_def db_of_def)

lemma seg_run_weaken:
  "seg_run P s s' \<Longrightarrow> (\<And>r. P r \<Longrightarrow> Q r) \<Longrightarrow> seg_run Q s s'"
  unfolding seg_run_def by (auto simp: list_all_iff split: prod.splits) 

lemma pair_segment_run:
  assumes u: "uncommitted w = []"
    and p: "\<And>dn fr. snd item = (Some dn, Some fr) \<Longrightarrow>
               P \<lparr>seg_session_id = sid, segment_number = fst item,
                  down_file_name = file_name dn, down_oss_path = oss_path dn,
                  down_file_size_bytes = file_size_bytes dn,
                  front_file_name = file_name fr, front_oss_path = oss_path fr,
                  front_file_size_bytes = file_size_bytes fr\<rparr>"
    and r: "pair_segment dbg nb sid item (pn, pe, up, ns) w = (stop, (pn', pe', up', ns'), w')"
  shows "seg_run P (w, ns, pn) (w', ns', pn')"
proof (cases "\<exists>dn fr. snd item = (Some dn, Some fr)")
  case False
  then have "w' = w \<and> ns' = ns \<and> pn' = pn"
    using r unfolding pair_segment_def
    by (cases item; cases "fst (snd item)"; cases "snd (snd item)") auto
  then show ?thesis using u by (simp add: seg_run_refl)
next
  case True
  then obtain seg dn fr where item: "item = (seg, Some dn, Some fr)"
    by (cases item) auto
  define rec where "rec = \<lparr>seg_session_id = sid, segment_number = seg,
                  down_file_name = file_name dn, down_oss_path = oss_path dn,
                  down_file_size_bytes = file_size_bytes dn,
                  front_file_name = file_name fr, front_oss_path = oss_path fr,
                  front_file_size_bytes = file_size_bytes fr\<rparr>"
  have P: "P rec" using p [of dn fr] item by (simp add: rec_def)
  have key: "segment_key rec = (sid, seg)" by (simp add: rec_def segment_key_def)
  obtain e w1 where ex: "is_segment_exists sid seg w = (e, w1)"
    by (cases "is_segment_exists sid seg w")
  have d1: "db_of w1 = db_of w" using ex by (rule is_segment_exists_db)
  then have u1: "uncommitted w1 = []" using u by (simp add: db_of_def)
  show ?thesis
  proof (cases e)
    case True
    with r item ex have "w' = w1 \<and> ns' = ns \<and> pn' = pn"
      by (simp add: pair_segment_def)
    with d1 u show ?thesis by (simp add: seg_run_db)
  next
    case False
    obtain ok w2 where ins: "insert_segment rec w1 = (ok, w2)"
      by (cases "insert_segment rec w1")
    note eff = insert_segment_effect [OF u1 ins]
    have d2: "sessions_tbl w2 = sessions_tbl w" "devices_tbl w2 = devices_tbl w"
      "uncommitted w2 = []"
      using eff d1 by (simp_all add: db_of_def)
    have s1: "segments_tbl w1 = segments_tbl w" using d1 by (simp add: db_of_def)
    show ?thesis
    proof (cases ok)
      case True
      with r item ex False ins
      have res: "ns' = insert (sid, seg) ns" "pn' = pn + 1"
        and w': "w' = w2 \<or> w' = logging WARNING ''scan_segments: debug limit'' [] w2"
        by (auto simp: pair_segment_def rec_def split: if_splits)
      from w' have same: "sessions_tbl w' = sessions_tbl w2" "devices_tbl w' = devices_tbl w2"
        "uncommitted w' = uncommitted w2" "segments_tbl w' = segments_tbl w2"
        by (auto simp: logging_def)
      from eff True s1 have seg: "segments_tbl w2 = segments_tbl w @ [rec]"
        "segment_key rec \<notin> set (map segment_key (segments_tbl w))"
        by simp_all
      show ?thesis
        unfolding seg_run_def using same d2 seg res P key
        by (simp only: prod.case) (rule conjI | simp | rule exI [of _ "[rec]"])+
    next
      case False
      with r item ex \<open>\<not> e\<close> ins
      have res: "ns' = ns" "pn' = pn"
        and w': "w' = w2 \<or> w' = logging WARNING ''scan_segments: debug limit'' [] w2"
        by (auto simp: pair_segment_def rec_def split: if_splits)
      from w' have same: "db_of w' = db_of w2"
        by (auto simp: db_of_logging)
      from eff False s1 d2 have "db_of w2 = db_of w" using u by (simp add: db_of_def)
      with same res u show ?thesis by (simp add: seg_run_db)
    qed
  qed
qed

lemma pair_segments_run:
  assumes "uncommitted w = []"
    and "\<And>item dn fr. item \<in> set items \<Longrightarrow> snd item = (Some dn, Some fr) \<Longrightarrow>
               P \<lparr>seg_session_id = sid, segment_number = fst item,
                  down_file_name = file_name dn, down_oss_path = oss_path dn,
                  down_file_size_bytes = file_size_bytes dn,
                  front_file_name = file_name fr, front_oss_path = oss_path fr,
                  front_file_size_bytes = file_size_bytes fr\<rparr>"
    and "pair_segments dbg nb sid items (pn, pe, up, ns) w = (stop, (pn', pe', up', ns'), w')"
  shows "seg_run P (w, ns, pn) (w', ns', pn')"
  using assms
proof (induction items arbitrary: pn pe up ns w)
  case Nil
  then show ?case by (simp add: seg_run_refl)
next
  case (Cons item rest)
  obtain st1 pn1 pe1 up1 ns1 w1
    where step: "pair_segment dbg nb sid item (pn, pe, up, ns) w = (st1, (pn1, pe1, up1, ns1), w1)"
    by (metis prod_cases4 prod.exhaust)
  have r1: "seg_run P (w, ns, pn) (w1, ns1, pn1)"
    using Cons.prems(1) _ step by (rule pair_segment_run) (simp add: Cons.prems(2))
  then have u1: "uncommitted w1 = []" by (simp add: seg_run_def)
  show ?case
  proof (cases st1)
    case True
    with Cons.prems(3) step have "w' = w1 \<and> ns' = ns1 \<and> pn' = pn1" by simp
    with r1 show ?thesis by simp
  next
    case False
    with Cons.prems(3) step
    have "pair_segments dbg nb sid rest (pn1, pe1, up1, ns1) w1 = (stop, (pn', pe', up', ns'), w')"
      by simp
    from Cons.IH [OF u1 _ this] Cons.prems(2)
    have "seg_run P (w1, ns1, pn1) (w', ns', pn')" by simp
    with r1 show ?thesis by (rule seg_run_trans)
  qed
qed

lemma set_insert_item: "set (insert_item x ys) = insert x (set ys)"
  by (induction ys) auto

lemma set_sorted_items: "set (sorted_items items) = set items"
  unfolding sorted_items_def by (induction items) (simp_all add: set_insert_item)

lemma entry_ok_empty: "entry_ok objects bname (k, (None, None))"
  by (simp add: entry_ok_def)

lemma dict_update_ok:
  assumes "list_all (entry_ok objects bname) d"
    and "\<And>v. entry_ok objects bname (k, v) \<Longrightarrow> entry_ok objects bname (k, f v)"
  shows "list_all (entry_ok objects bname) (dict_update k f d)"
  using assms by (induction d) (auto simp: entry_ok_empty)

lemma group_object_ok:
  assumes "obj_key \<in> set objects" and "endswith obj_key ''.mp4''"
    and "list_all (entry_ok objects bname) d"
    and "group_object b bname obj_key d nv w = (Inr (d', nv'), w')"
  shows "list_all (entry_ok objects bname) d' \<and> db_of w' = db_of w"
proof -
  define filename where "filename = last_component obj_key"
  obtain cam seg where pm: "parse_mp4_filename filename = (cam, seg)"
    by (cases "parse_mp4_filename filename")
  show ?thesis
  proof (cases "cam = [] \<or> seg = []")
    case True
    with assms(3,4) pm show ?thesis
      by (auto simp: group_object_def filename_def Let_def db_of_logging)
  next
    case False
    obtain r w1 where gs: "get_object_size b obj_key w = (r, w1)"
      by (cases "get_object_size b obj_key w")
    have d1: "db_of w1 = db_of w" using gs by (rule get_object_size_db)
    from assms(4) pm False gs obtain size where r: "r = Inr size"
      by (cases r) (auto simp: group_object_def filename_def Let_def)
    define path where "path = ''oss://'' @ bname @ ''/'' @ obj_key"
    have down: "contains (lower cam) ''down'' \<Longrightarrow>
           listed_as objects bname seg True filename path"
      unfolding listed_as_def using assms(1,2) pm False
      by (auto simp: filename_def path_def intro!: bexI [of _ obj_key])
    have front: "\<not> contains (lower cam) ''down'' \<Longrightarrow> contains (lower cam) ''front'' \<Longrightarrow>
           listed_as objects bname seg False filename path"
      unfolding listed_as_def using assms(1,2) pm False
      by (auto simp: filename_def path_def intro!: bexI [of _ obj_key])
    consider (dn) "contains (lower cam) ''down''"
      | (fr) "\<not> contains (lower cam) ''down''" "contains (lower cam) ''front''"
      | (other) "\<not> contains (lower cam) ''down''" "\<not> contains (lower cam) ''front''"
      by blast
    then show ?thesis
    proof cases
      case dn
      with assms(4) pm False gs r
      have "d' = dict_update seg (\<lambda>(dn, fr). (Some (CameraFile filename path size), fr)) d"
        and "w' = w1"
        by (auto simp: group_object_def filename_def path_def Let_def)
      moreover have "list_all (entry_ok objects bname)
           (dict_update seg (\<lambda>(dn, fr). (Some (CameraFile filename path size), fr)) d)"
        using assms(3) by (rule dict_update_ok) (auto simp: entry_ok_def down [OF dn])
      ultimately show ?thesis using d1 by simp
    next
      case fr
      with assms(4) pm False gs r
      have "d' = dict_update seg (\<lambda>(dn, fr). (dn, Some (CameraFile filename path size))) d"
        and "w' = w1"
        by (auto simp: group_object_def filename_def path_def Let_def)
      moreover have "list_all (entry_ok objects bname)
           (dict_update seg (\<lambda>(dn, fr). (dn, Some (CameraFile filename path size))) d)"
        using assms(3) by (rule dict_update_ok) (auto simp: entry_ok_def front [OF fr])
      ultimately show ?thesis using d1 by simp
    next
      case other
      with assms(3,4) pm False gs r d1 show ?thesis
        by (auto simp: group_object_def filename_def Let_def db_of_logging)
    qed
  qed
qed

lemma group_objects_ok:
  assumes "set keys \<subseteq> set objects" and "list_all (\<lambda>k. endswith k ''.mp4'') keys"
    and "list_all (entry_ok objects bname) d"
    and "group_objects b bname keys d nv w = (Inr (d', nv'), w')"
  shows "list_all (entry_ok objects bname) d' \<and> db_of w' = db_of w"
  using assms
proof (induction keys arbitrary: d nv w)
  case Nil
  then show ?case by simp
next
  case (Cons k keys)
  obtain r w1 where g: "group_object b bname k d nv w = (r, w1)"
    by (cases "group_object b bname k d nv w")
  with Cons.prems(4) obtain d1 nv1 where r: "r = Inr (d1, nv1)"
    by (cases r) auto
  from Cons.prems(1,2) have k: "k \<in> set objects" "endswith k ''.mp4''" by simp_all
  from group_object_ok [OF k Cons.prems(3) g [unfolded r]]
  have ok1: "list_all (entry_ok objects bname) d1" and db1: "db_of w1 = db_of w" by simp_all
  from Cons.prems(4) g r have "group_objects b bname keys d1 nv1 w1 = (Inr (d', nv'), w')"
    by simp
  from Cons.IH [OF _ _ ok1 this] Cons.prems(1,2) db1 show ?case by simp
qed

lemma group_objects_db:
  "group_objects b bname keys d nv w = (r, w') \<Longrightarrow> db_of w' = db_of w"
proof (induction keys arbitrary: d nv w)
  case Nil
  then show ?case by simp
next
  case (Cons k keys)
  obtain r1 w1 where g: "group_object b bname k d nv w = (r1, w1)"
    by (cases "group_object b bname k d nv w")
  have db1: "db_of w1 = db_of w"
    using g unfolding group_object_def Let_def
    by (auto simp: db_of_logging split: prod.splits sum.splits if_splits dest: get_object_size_db)
  show ?case
  proof (cases r1)
    case (Inl e)
    with Cons.prems g db1 show ?thesis by simp
  next
    case (Inr x)
    then obtain d1 nv1 where "r1 = Inr (d1, nv1)" by (cases x) simp
    with Cons.prems g have "group_objects b bname keys d1 nv1 w1 = (r, w')" by simp
    from Cons.IH [OF this] db1 show ?thesis by simp
  qed
qed

lemma seg_run_from_db:
  assumes "db_of w1 = db_of w" and "seg_run P (w1, ns, n) s'"
  shows "seg_run P (w, ns, n + c) (fst s', fst (snd s'), snd (snd s') + c)"
  using assms unfolding seg_run_def db_of_def
  by (cases s') auto

lemma scan_segments_session_run:
  assumes u: "uncommitted w = []"
    and r: "scan_segments_session b bname start_date end_date dbg session_prefix stats ns w
              = (fl, stats', ns', w')"
  shows "seg_run (segment_evidence b bname (sessions_tbl w))
           (w, ns, segments_new stats) (w', ns', segments_new stats')"
proof -
  define sid where "sid = session_id_of session_prefix"
  define P where "P = segment_evidence b bname (sessions_tbl w)"
  obtain ds ts sd where ps: "parse_session_id sid = (ds, ts, sd)"
    by (cases "parse_session_id sid")
  show ?thesis
  proof (cases "is_date_in_range sd start_date end_date")
    case False
    with r ps have "w' = w \<and> ns' = ns \<and> segments_new stats' = segments_new stats"
      by (auto simp: scan_segments_session_def sid_def Let_def)
    with u show ?thesis by (simp add: seg_run_refl)
  next
    case True
    note inr = this
    obtain e w1 where ex: "is_session_exists sid w = (e, w1)"
      by (cases "is_session_exists sid w")
    have d1: "db_of w1 = db_of w" using ex by (rule is_session_exists_db)
    show ?thesis
    proof (cases e)
      case False
      with r ps inr ex
      have "w' = logging WARNING ''scan_segments: session missing'' sid w1 \<and> ns' = ns
            \<and> segments_new stats' = segments_new stats"
        by (auto simp: scan_segments_session_def sid_def Let_def)
      with d1 u show ?thesis by (simp add: seg_run_db db_of_logging)
    next
      case True
      with ex have "is_session_exists sid w = (True, w1)" by simp
      then have "sid \<in> set (map session_id (visible_sessions w))"
        by (rule is_session_exists_True)
      with u have parent: "sid \<in> set (map session_id (sessions_tbl w))"
        by (simp add: visible_sessions_def)
      obtain lo w2 where lst: "list_objects b (session_prefix @ ''segments/'') w1 = (lo, w2)"
        by (cases "list_objects b (session_prefix @ ''segments/'') w1")
      have d2: "db_of w2 = db_of w" using list_objects_db [OF lst] d1 by simp
      show ?thesis
      proof (cases lo)
        case (Inl err)
        with r ps inr ex True lst
        have "w' = logging ERROR ''scan_segments: cannot list objects'' sid w2 \<and> ns' = ns
              \<and> segments_new stats' = segments_new stats"
          by (auto simp: scan_segments_session_def sid_def Let_def)
        with d2 u show ?thesis by (simp add: seg_run_db db_of_logging)
      next
        case (Inr objects)
        with lst have objs: "objects = concat (object_pages b (session_prefix @ ''segments/''))"
          by (simp add: list_objects_result)
        define mp4 where "mp4 = filter (\<lambda>obj. endswith obj ''.mp4'') objects"
        show ?thesis
        proof (cases "mp4 = []")
          case True
          with r ps inr ex \<open>e\<close> lst Inr
          have "w' = w2 \<and> ns' = ns \<and> segments_new stats' = segments_new stats"
            by (auto simp: scan_segments_session_def sid_def Let_def mp4_def)
          with d2 u show ?thesis by (simp add: seg_run_db)
        next
          case False
          obtain g w3 where grp: "group_objects b bname mp4 [] 0 w2 = (g, w3)"
            by (cases "group_objects b bname mp4 [] 0 w2")
          have d3: "db_of w3 = db_of w" using group_objects_db [OF grp] d2 by simp
          then have u3: "uncommitted w3 = []" using u by (simp add: db_of_def)
          show ?thesis
          proof (cases g)
            case (Inl err)
            with r ps inr ex \<open>e\<close> lst \<open>lo = Inr objects\<close> False grp
            have "w' = w3 \<and> ns' = ns \<and> segments_new stats' = segments_new stats"
              by (auto simp: scan_segments_session_def sid_def Let_def mp4_def)
            with d3 u show ?thesis by (simp add: seg_run_db)
          next
            case (Inr dn)
            then obtain d nv where g: "g = Inr (d, nv)" by (cases dn) simp
            have ok: "list_all (entry_ok objects bname) d"
              using group_objects_ok [OF _ _ _ grp [unfolded g], of objects]
              by (simp add: mp4_def list_all_iff)
            obtain stop pn pe up ns1 w4 where pr:
              "pair_segments dbg (segments_new stats) sid (sorted_items d) (0, 0, 0, ns) w3
                 = (stop, (pn, pe, up, ns1), w4)"
              by (metis prod_cases4 prod.exhaust)
            have run: "seg_run P (w3, ns, 0) (w4, ns1, pn)"
              using u3 _ pr
            proof (rule pair_segments_run)
              fix item dn fr
              assume "item \<in> set (sorted_items d)" and s: "snd item = (Some dn, Some fr)"
              then have "entry_ok objects bname item"
                using ok by (simp add: set_sorted_items list_all_iff)
              with s have "listed_as objects bname (fst item) True (file_name dn) (oss_path dn)"
                and "listed_as objects bname (fst item) False (file_name fr) (oss_path fr)"
                by (cases item; simp add: entry_ok_def)+
              then show "P \<lparr>seg_session_id = sid, segment_number = fst item,
                  down_file_name = file_name dn, down_oss_path = oss_path dn,
                  down_file_size_bytes = file_size_bytes dn,
                  front_file_name = file_name fr, front_oss_path = oss_path fr,
                  front_file_size_bytes = file_size_bytes fr\<rparr>"
                unfolding P_def segment_evidence_def row_paired_def
                using parent objs sid_def by auto
            qed
            from r ps inr ex \<open>e\<close> lst \<open>lo = Inr objects\<close> False grp g pr
            have res: "w' = w4" "ns' = ns1" "segments_new stats' = segments_new stats + pn"
              by (auto simp: scan_segments_session_def sid_def Let_def mp4_def)
            from seg_run_from_db [OF d3 run, of "segments_new stats"] res
            show ?thesis by (simp add: P_def add.commute)
          qed
        qed
      qed
    qed
  qed
qed

lemma seg_run_sessions: "seg_run P (w, ns, n) (w', ns', n') \<Longrightarrow> sessions_tbl w' = sessions_tbl w"
  by (simp add: seg_run_def)

lemma seg_run_uncommitted: "seg_run P (w, ns, n) (w', ns', n') \<Longrightarrow> uncommitted w' = []"
  by (simp add: seg_run_def)

lemma scan_segments_sessions_run:
  assumes "uncommitted w = []" and "sessions_tbl w = S"
    and "scan_segments_sessions b bname start_date end_date dbg sps stats ns w
              = (fl, stats', ns', w')"
  shows "seg_run (segment_evidence b bname S)
           (w, ns, segments_new stats) (w', ns', segments_new stats')"
  using assms
proof (induction sps arbitrary: stats ns w)
  case Nil
  then show ?case by (simp add: seg_run_refl)
next
  case (Cons sp sps)
  obtain fl1 stats1 ns1 w1 where step:
    "scan_segments_session b bname start_date end_date dbg sp stats ns w = (fl1, stats1, ns1, w1)"
    by (metis prod_cases4)
  have r1: "seg_run (segment_evidence b bname S) (w, ns, segments_new stats)
              (w1, ns1, segments_new stats1)"
    using scan_segments_session_run [OF Cons.prems(1) step] Cons.prems(2) by simp
  show ?case
  proof (cases "fl1 = Continue")
    case True
    with Cons.prems(3) step
    have "scan_segments_sessions b bname start_date end_date dbg sps stats1 ns1 w1
            = (fl, stats', ns', w')" by simp
    from Cons.IH [OF seg_run_uncommitted [OF r1] _ this] seg_run_sessions [OF r1] Cons.prems(2)
    have "seg_run (segment_evidence b bname S) (w1, ns1, segments_new stats1)
            (w', ns', segments_new stats')" by simp
    with r1 show ?thesis by (rule seg_run_trans)
  next
    case False
    with Cons.prems(3) step have "stats' = stats1 \<and> ns' = ns1 \<and> w' = w1"
      by (cases fl1) auto
    with r1 show ?thesis by simp
  qed
qed

lemma scan_segments_device_run:
  assumes "uncommitted w = []" and "sessions_tbl w = S"
    and "scan_segments_device b bname cfg start_date end_date flt dbg dp stats ns w
              = (fl, stats', ns', w')"
  shows "seg_run (segment_evidence b bname S)
           (w, ns, segments_new stats) (w', ns', segments_new stats')"
proof -
  define dev where "dev = rstrip_slash dp"
  show ?thesis
  proof (cases "filter_applies flt dev \<or> cfg dev = None \<or> skip_scan (the (cfg dev))")
    case True
    with assms(3) have "w' = w \<and> ns' = ns \<and> stats' = stats"
      by (auto simp: scan_segments_device_def dev_def Let_def split: option.splits if_splits)
    with assms(1) show ?thesis by (simp add: seg_run_refl)
  next
    case False
    then obtain c where c: "cfg dev = Some c" "\<not> skip_scan c" "\<not> filter_applies flt dev"
      by auto
    obtain lp w1 where lst: "list_prefixes b dp w = (lp, w1)"
      by (cases "list_prefixes b dp w")
    have d1: "db_of w1 = db_of w" using lst by (rule list_prefixes_db)
    show ?thesis
    proof (cases lp)
      case (Inl e)
      with assms(3) c lst have "w' = w1 \<and> ns' = ns \<and> segments_new stats' = segments_new stats"
        by (auto simp: scan_segments_device_def dev_def Let_def)
      with d1 assms(1) show ?thesis by (simp add: seg_run_db)
    next
      case (Inr sps)
      with assms(3) c lst
      have run: "scan_segments_sessions b bname start_date end_date dbg (valid_sessions sps)
                   (stats\<lparr>seg_devices_scanned := seg_devices_scanned stats + 1\<rparr>) ns w1
                 = (fl, stats', ns', w')"
        by (auto simp: scan_segments_device_def dev_def Let_def)
      have u1: "uncommitted w1 = []" and s1: "sessions_tbl w1 = S"
        using d1 assms(1,2) by (simp_all add: db_of_def)
      from scan_segments_sessions_run [OF u1 s1 run]
      have "seg_run (segment_evidence b bname S) (w1, ns, segments_new stats)
              (w', ns', segments_new stats')" by simp
      from seg_run_from_db [OF d1 this, of 0] show ?thesis by simp
    qed
  qed
qed

lemma scan_segments_devices_run:
  assumes "uncommitted w = []" and "sessions_tbl w = S"
    and "scan_segments_devices b bname cfg start_date end_date flt dbg dps stats ns w
              = (fl, stats', ns', w')"
  shows "seg_run (segment_evidence b bname S)
           (w, ns, segments_new stats) (w', ns', segments_new stats')"
  using assms
proof (induction dps arbitrary: stats ns w)
  case Nil
  then show ?case by (simp add: seg_run_refl)
next
  case (Cons dp dps)
  obtain fl1 stats1 ns1 w1 where step:
    "scan_segments_device b bname cfg start_date end_date flt dbg dp stats ns w
       = (fl1, stats1, ns1, w1)"
    by (metis prod_cases4)
  have r1: "seg_run (segment_evidence b bname S) (w, ns, segments_new stats)
              (w1, ns1, segments_new stats1)"
    using Cons.prems(1,2) step by (rule scan_segments_device_run)
  show ?case
  proof (cases "fl1 = Continue")
    case True
    with Cons.prems(3) step
    have "scan_segments_devices b bname cfg start_date end_date flt dbg dps stats1 ns1 w1
            = (fl, stats', ns', w')" by simp
    from Cons.IH [OF seg_run_uncommitted [OF r1] _ this] seg_run_sessions [OF r1] Cons.prems(2)
    have "seg_run (segment_evidence b bname S) (w1, ns1, segments_new stats1)
            (w', ns', segments_new stats')" by simp
    with r1 show ?thesis by (rule seg_run_trans)
  next
    case False
    with Cons.prems(3) step have "stats' = stats1 \<and> ns' = ns1 \<and> w' = w1"
      by (cases fl1) auto
    with r1 show ?thesis by simp
  qed
qed

text \<open>
  What every run of \<open>scan_segments\<close> does to the database, whether it returns or
  raises: \<open>rows\<close> are the rows it added, all with evidence; if it returns, the set it
  returns holds exactly their keys and the counter of new segments is their number.
\<close>

lemma scan_segments_run:
  assumes u: "uncommitted w = []"
    and r: "scan_segments b bname cfg start_date end_date flt dbg w = (res, w')"
  shows "\<exists>ns n. seg_run (segment_evidence b bname (sessions_tbl w)) (w, {}, 0) (w', ns, n)
               \<and> (\<forall>stats new. res = Inr (stats, new) \<longrightarrow> new = ns \<and> segments_new stats = n)"
proof -
  obtain lp w1 where lst: "list_prefixes b [] w = (lp, w1)"
    by (cases "list_prefixes b [] w")
  have d1: "db_of w1 = db_of w" using lst by (rule list_prefixes_db)
  show ?thesis
  proof (cases lp)
    case (Inl e)
    with r lst have "w' = w1" "res = Inl e" by (auto simp: scan_segments_def)
    with d1 u show ?thesis
      by (intro exI [of _ "{}"] exI [of _ 0]) (simp add: seg_run_db)
  next
    case (Inr dps)
    obtain fl stats2 ns2 w2 where run:
      "scan_segments_devices b bname cfg start_date end_date flt dbg dps seg_stats0 {} w1
         = (fl, stats2, ns2, w2)"
      by (metis prod_cases4)
    have u1: "uncommitted w1 = []" and s1: "sessions_tbl w1 = sessions_tbl w"
      using d1 u by (simp_all add: db_of_def)
    from scan_segments_devices_run [OF u1 s1 run]
    have "seg_run (segment_evidence b bname (sessions_tbl w)) (w1, {}, 0)
            (w2, ns2, segments_new stats2)"
      by (simp add: seg_stats0_def)
    from seg_run_from_db [OF d1 this, of 0]
    have sr: "seg_run (segment_evidence b bname (sessions_tbl w)) (w, {}, 0)
            (w2, ns2, segments_new stats2)" by simp
    from r lst Inr run have "w' = w2"
      and "\<forall>stats new. res = Inr (stats, new) \<longrightarrow> new = ns2 \<and> stats = stats2"
      by (cases fl; auto simp: scan_segments_def)+
    with sr show ?thesis by blast
  qed
qed

lemma seg_run_rows_added:
  assumes "seg_run P (w, {}, 0) (w', ns, n)"
  shows "segments_tbl w' = segments_tbl w @ rows_added w w'
         \<and> list_all P (rows_added w w')
         \<and> distinct (map segment_key (rows_added w w'))
         \<and> set (map segment_key (rows_added w w')) \<inter> set (map segment_key (segments_tbl w)) = {}
         \<and> ns = set (map segment_key (rows_added w w'))
         \<and> n = length (rows_added w w') \<and> card ns = length (rows_added w w')
         \<and> sessions_tbl w' = sessions_tbl w \<and> uncommitted w' = []"
proof -
  from assms obtain added where a: "segments_tbl w' = segments_tbl w @ added"
    "distinct (map segment_key added)"
    "set (map segment_key added) \<inter> set (map segment_key (segments_tbl w)) = {}"
    "list_all P added" "ns = set (map segment_key added)" "n = length added"
    and f: "sessions_tbl w' = sessions_tbl w" "uncommitted w' = []"
    by (auto simp: seg_run_def)
  have ra: "rows_added w w' = added" by (simp add: rows_added_def a(1))
  have "card ns = length added"
    using a(2,5) distinct_card [of "map segment_key added"] by simp
  with a f ra show ?thesis by simp
qed

section \<open>The Segment phase: the claims\<close>

lemma listed_as_has_camera_file:
  "listed_as objects bname seg is_down fname path \<Longrightarrow> has_camera_file objects seg is_down"
  unfolding listed_as_def has_camera_file_def by blast

lemma example_segments_result:
  "fst (scan_segments example_bucket ''fpv'' example_config None None None False example_world)
     = Inr (seg_stats0\<lparr>seg_devices_scanned := 1, seg_sessions_scanned := 3,
                       sessions_processed := 2, segments_new := 1, segments_unpaired := 3,
                       sessions_missing := 1\<rparr>,
            {(''session_20250115_101010_1'', ''0002'')})"
  by code_simp

lemma example_world_idle: "uncommitted example_world = []"
  by (simp add: example_world_def empty_world_def)

text \<open>
  Claim C3. When \<open>scan_segments\<close> returns, the set of new segments it returns holds
  exactly the keys (session id, segment number) of the rows that the run committed to the
  segment table: the table afterwards is the table before followed by these rows, their
  keys are distinct and were not in the table, nothing is left uncommitted, and the size
  of the set, the number of the rows and the counter of new segments are equal.
\<close>

theorem change_tracker_exact:
  assumes "uncommitted w = []"
    and "scan_segments b bname device_config start_date end_date device_id_filter debug_mode w
           = (Inr (stats, new_segments), w')"
  shows "segments_tbl w' = segments_tbl w @ rows_added w w'
         \<and> uncommitted w' = []
         \<and> new_segments = set (map segment_key (rows_added w w'))
         \<and> distinct (map segment_key (rows_added w w'))
         \<and> set (map segment_key (rows_added w w')) \<inter> set (map segment_key (segments_tbl w)) = {}
         \<and> card new_segments = length (rows_added w w')
         \<and> segments_new stats = length (rows_added w w')"
proof -
  from scan_segments_run [OF assms] obtain ns n
    where run: "seg_run (segment_evidence b bname (sessions_tbl w)) (w, {}, 0) (w', ns, n)"
      and res: "new_segments = ns" "segments_new stats = n"
    by blast
  from seg_run_rows_added [OF run] show ?thesis unfolding res by blast
qed

theorem change_tracker_exact_witness:
  "uncommitted example_world = []
   \<and> fst (scan_segments example_bucket ''fpv'' example_config None None None False example_world)
       = Inr (seg_stats0\<lparr>seg_devices_scanned := 1, seg_sessions_scanned := 3,
                       sessions_processed := 2, segments_new := 1, segments_unpaired := 3,
                       sessions_missing := 1\<rparr>,
            {(''session_20250115_101010_1'', ''0002'')})
   \<and> {(''session_20250115_101010_1'', ''0002'')}
       = set (map segment_key (rows_added example_world
           (snd (scan_segments example_bucket ''fpv'' example_config None None None False
                   example_world))))
   \<and> card {(''session_20250115_101010_1'', ''0002'')}
       = length (rows_added example_world
           (snd (scan_segments example_bucket ''fpv'' example_config None None None False
                   example_world)))"
proof -
  let ?run = "scan_segments example_bucket ''fpv'' example_config None None None False
                example_world"
  have r: "?run = (Inr (seg_stats0\<lparr>seg_devices_scanned := 1, seg_sessions_scanned := 3,
                       sessions_processed := 2, segments_new := 1, segments_unpaired := 3,
                       sessions_missing := 1\<rparr>,
            {(''session_20250115_101010_1'', ''0002'')}), snd ?run)"
    using example_segments_result by (metis prod.collapse)
  from change_tracker_exact [OF example_world_idle r] example_world_idle example_segments_result
  show ?thesis by blast
qed

text \<open>
  Claim C4. Every row that a run of \<open>scan_segments\<close> adds to the segment table (whether
  the run returns or raises) has, in the listing of the segment directory of a session
  folder with the row's session id, a down file and a front file with the row's segment
  number, and they are the files the row names. So a segment number for which the
  listings of the session hold no front file (or no down file) gets no row, and a
  session whose listings hold only down files gets no row at all.
\<close>

theorem pairing_invariant:
  assumes "uncommitted w = []"
    and "scan_segments b bname device_config start_date end_date device_id_filter debug_mode w
           = (res, w')"
  shows "list_all (\<lambda>r. \<exists>session_prefix. session_id_of session_prefix = seg_session_id r
                     \<and> row_paired (concat (object_pages b (session_prefix @ ''segments/'')))
                          bname r)
           (rows_added w w')
         \<and> ((\<forall>session_prefix. session_id_of session_prefix = sid \<longrightarrow>
                \<not> (has_camera_file (concat (object_pages b (session_prefix @ ''segments/'')))
                      seg True
                    \<and> has_camera_file (concat (object_pages b (session_prefix @ ''segments/'')))
                      seg False))
             \<longrightarrow> (sid, seg) \<notin> set (map segment_key (rows_added w w')))
         \<and> ((\<forall>session_prefix seg'. session_id_of session_prefix = sid \<longrightarrow>
                \<not> has_camera_file (concat (object_pages b (session_prefix @ ''segments/'')))
                      seg' False)
             \<longrightarrow> sid \<notin> set (map seg_session_id (rows_added w w')))"
proof -
  from scan_segments_run [OF assms] obtain ns n
    where run: "seg_run (segment_evidence b bname (sessions_tbl w)) (w, {}, 0) (w', ns, n)"
    by blast
  from seg_run_rows_added [OF run]
  have ev: "list_all (segment_evidence b bname (sessions_tbl w)) (rows_added w w')" by simp
  have paired: "\<exists>session_prefix. session_id_of session_prefix = seg_session_id r
                     \<and> row_paired (concat (object_pages b (session_prefix @ ''segments/'')))
                          bname r"
    if "r \<in> set (rows_added w w')" for r
    using ev that by (auto simp: list_all_iff segment_evidence_def)
  have both: "\<exists>session_prefix. session_id_of session_prefix = seg_session_id r
      \<and> has_camera_file (concat (object_pages b (session_prefix @ ''segments/'')))
            (segment_number r) True
      \<and> has_camera_file (concat (object_pages b (session_prefix @ ''segments/'')))
            (segment_number r) False"
    if "r \<in> set (rows_added w w')" for r
    using paired [OF that] unfolding row_paired_def
    by (blast intro: listed_as_has_camera_file)
  have a: "list_all (\<lambda>r. \<exists>session_prefix. session_id_of session_prefix = seg_session_id r
                     \<and> row_paired (concat (object_pages b (session_prefix @ ''segments/'')))
                          bname r)
           (rows_added w w')"
    using paired by (simp add: list_all_iff)
  have b: "(\<forall>session_prefix. session_id_of session_prefix = sid \<longrightarrow>
                \<not> (has_camera_file (concat (object_pages b (session_prefix @ ''segments/'')))
                      seg True
                    \<and> has_camera_file (concat (object_pages b (session_prefix @ ''segments/'')))
                      seg False))
             \<longrightarrow> (sid, seg) \<notin> set (map segment_key (rows_added w w'))"
    using both by (fastforce simp: segment_key_def)
  have c: "(\<forall>session_prefix seg'. session_id_of session_prefix = sid \<longrightarrow>
                \<not> has_camera_file (concat (object_pages b (session_prefix @ ''segments/'')))
                      seg' False)
             \<longrightarrow> sid \<notin> set (map seg_session_id (rows_added w w'))"
    using both by fastforce
  from a b c show ?thesis by blast
qed

lemma example_only_down:
  assumes "session_id_of sp = ''session_20250117_090000_3''"
  shows "\<not> has_camera_file (concat (object_pages example_bucket (sp @ ''segments/''))) seg False"
proof -
  have s1: "session_id_of ''7393/session_20250115_101010_1/'' = ''session_20250115_101010_1''"
    by code_simp
  have s2: "session_id_of ''7393/session_20250116_090000_2/'' = ''session_20250116_090000_2''"
    by code_simp
  have p1: "''7393/session_20250115_101010_1/segments/''
              = ''7393/session_20250115_101010_1/'' @ ''segments/''" by simp
  have p2: "''7393/session_20250116_090000_2/segments/''
              = ''7393/session_20250116_090000_2/'' @ ''segments/''" by simp
  have n1: "sp @ ''segments/'' \<noteq> ''7393/session_20250115_101010_1/segments/''"
    unfolding p1 using assms s1 by auto
  have n2: "sp @ ''segments/'' \<noteq> ''7393/session_20250116_090000_2/segments/''"
    unfolding p2 using assms s2 by auto
  have d1: "fst (parse_mp4_filename (last_component
              ''7393/session_20250117_090000_3/segments/cam-down_sbs_0001.mp4'')) = ''cam-down''"
    by code_simp
  have d2: "fst (parse_mp4_filename (last_component
              ''7393/session_20250117_090000_3/segments/cam-down_sbs_0002.mp4'')) = ''cam-down''"
    by code_simp
  have c: "contains (lower ''cam-down'') ''down''" by code_simp
  show ?thesis
  proof (cases "sp @ ''segments/'' = ''7393/session_20250117_090000_3/segments/''")
    case True
    then have e: "object_pages example_bucket (sp @ ''segments/'')
        = [[''7393/session_20250117_090000_3/segments/cam-down_sbs_0001.mp4'',
            ''7393/session_20250117_090000_3/segments/cam-down_sbs_0002.mp4'']]"
      by (simp add: example_bucket_def)
    show ?thesis
      unfolding has_camera_file_def e using d1 d2 c by simp
  next
    case False
    with n1 n2 have e: "object_pages example_bucket (sp @ ''segments/'') = []"
      by (simp add: example_bucket_def)
    show ?thesis by (simp add: has_camera_file_def e)
  qed
qed

theorem pairing_invariant_witness:
  "uncommitted example_world = []
   \<and> list_all (\<lambda>r. \<exists>session_prefix. session_id_of session_prefix = seg_session_id r
                 \<and> row_paired (concat (object_pages example_bucket (session_prefix @ ''segments/'')))
                      ''fpv'' r)
        (rows_added example_world
           (snd (scan_segments example_bucket ''fpv'' example_config None None None False
                   example_world)))
   \<and> ''session_20250117_090000_3''
       \<notin> set (map seg_session_id (rows_added example_world
           (snd (scan_segments example_bucket ''fpv'' example_config None None None False
                   example_world))))"
proof -
  let ?run = "scan_segments example_bucket ''fpv'' example_config None None None False
                example_world"
  have r: "?run = (fst ?run, snd ?run)" by simp
  from pairing_invariant [OF example_world_idle r, of "''session_20250117_090000_3''"]
    example_only_down example_world_idle
  show ?thesis by blast
qed

lemma is_session_exists_absent:
  assumes "sid \<notin> set (map session_id (visible_sessions w))"
    and "is_session_exists sid w = (r, w')"
  shows "\<not> r \<and> db_of w' = db_of w \<and> oss_calls w' = oss_calls w \<and> oss_faults w' = oss_faults w
         \<and> db_trace w' = db_trace w @ [SelectSession sid]
         \<and> (logged w' = logged w \<or> logged w' = logged w @ [(ERROR, ''is_session_exists'', sid)])"
proof -
  obtain f w1 where q: "db_request (SelectSession sid) w = (f, w1)"
    by (cases "db_request (SelectSession sid) w")
  note f1 = db_request_fields [OF q]
  have v: "visible_sessions w1 = visible_sessions w"
    using f1 by (simp add: visible_sessions_def)
  from assms q v show ?thesis
    using f1 by (cases f) (auto simp: is_session_exists_def logging_def db_of_def)
qed

lemma scan_segments_session_skips:
  assumes u: "uncommitted w = []"
    and a: "session_id_of sp \<notin> set (map session_id (sessions_tbl w))"
    and r: "scan_segments_session b bname start_date end_date dbg sp stats ns w
              = (fl, stats', ns', w')"
  shows "fl = Continue \<and> ns' = ns \<and> db_of w' = db_of w
         \<and> oss_calls w' = oss_calls w \<and> oss_faults w' = oss_faults w
         \<and> (db_trace w' = db_trace w \<or> db_trace w' = db_trace w @ [SelectSession (session_id_of sp)])
         \<and> (is_date_in_range (snd (snd (parse_session_id (session_id_of sp)))) start_date end_date
              \<longrightarrow> sessions_missing stats' = sessions_missing stats + 1
                  \<and> sessions_processed stats' = sessions_processed stats
                  \<and> last (logged w') = (WARNING, ''scan_segments: session missing'', session_id_of sp))"
proof -
  define sid where "sid = session_id_of sp"
  obtain ds ts sd where ps: "parse_session_id sid = (ds, ts, sd)"
    by (cases "parse_session_id sid")
  show ?thesis
  proof (cases "is_date_in_range sd start_date end_date")
    case False
    with r ps show ?thesis
      by (auto simp: scan_segments_session_def sid_def Let_def)
  next
    case True
    obtain e w1 where ex: "is_session_exists sid w = (e, w1)"
      by (cases "is_session_exists sid w")
    have "sid \<notin> set (map session_id (visible_sessions w))"
      using a u by (simp add: visible_sessions_def sid_def)
    note ab = is_session_exists_absent [OF this ex]
    then have "\<not> e" by simp
    with r ps True ex
    have res: "fl = Continue" "ns' = ns"
      "w' = logging WARNING ''scan_segments: session missing'' sid w1"
      "sessions_missing stats' = sessions_missing stats + 1"
      "sessions_processed stats' = sessions_processed stats"
      by (auto simp: scan_segments_session_def sid_def Let_def)
    from res ab show ?thesis
      by (simp add: sid_def [symmetric] ps logging_def db_of_def)
  qed
qed

text \<open>
  Claim C5. No run of \<open>scan_segments\<close> (whether it returns or raises) adds a segment row
  whose session id has no row in the session table, and the session table is not
  changed. In the loop over the sessions, a session folder whose session id is not in
  the session table is left with \<open>Continue\<close>: no request goes to the bucket, the only
  statement that may go to the database is the lookup of the session, the database and
  the set of new segments stay as they are, and (when the date filter lets the session
  through) the counter of missing sessions goes up by one and the last log entry is the
  warning.
\<close>

theorem session_before_segment:
  assumes "uncommitted w = []"
  shows "(scan_segments b bname device_config start_date end_date device_id_filter debug_mode w
            = (res, w')
          \<longrightarrow> list_all (\<lambda>r. seg_session_id r \<in> set (map session_id (sessions_tbl w)))
                 (rows_added w w')
              \<and> sessions_tbl w' = sessions_tbl w)
         \<and> (session_id_of sp \<notin> set (map session_id (sessions_tbl w))
            \<and> scan_segments_session b bname start_date end_date debug_mode sp stats ns w
                = (fl, stats1, ns1, w1)
            \<longrightarrow> fl = Continue \<and> ns1 = ns \<and> db_of w1 = db_of w
              \<and> oss_calls w1 = oss_calls w \<and> oss_faults w1 = oss_faults w
              \<and> (db_trace w1 = db_trace w
                  \<or> db_trace w1 = db_trace w @ [SelectSession (session_id_of sp)])
              \<and> (is_date_in_range (snd (snd (parse_session_id (session_id_of sp))))
                    start_date end_date
                  \<longrightarrow> sessions_missing stats1 = sessions_missing stats + 1
                      \<and> sessions_processed stats1 = sessions_processed stats
                      \<and> last (logged w1)
                          = (WARNING, ''scan_segments: session missing'', session_id_of sp)))"
proof -
  have a: "list_all (\<lambda>r. seg_session_id r \<in> set (map session_id (sessions_tbl w)))
                 (rows_added w w')
              \<and> sessions_tbl w' = sessions_tbl w"
    if r: "scan_segments b bname device_config start_date end_date device_id_filter debug_mode w
            = (res, w')"
  proof -
    from scan_segments_run [OF assms r] obtain ns n
      where run: "seg_run (segment_evidence b bname (sessions_tbl w)) (w, {}, 0) (w', ns, n)"
      by blast
    from seg_run_rows_added [OF run] show ?thesis
      by (auto simp: list_all_iff segment_evidence_def)
  qed
  from a scan_segments_session_skips [OF assms] show ?thesis by blast
qed

theorem session_before_segment_witness:
  "uncommitted example_world = []
   \<and> list_all (\<lambda>r. seg_session_id r \<in> set (map session_id (sessions_tbl example_world)))
        (rows_added example_world
           (snd (scan_segments example_bucket ''fpv'' example_config None None None False
                   example_world)))
   \<and> session_id_of ''7393/session_20250116_090000_2/''
       \<notin> set (map session_id (sessions_tbl example_world))
   \<and> fst (scan_segments_session example_bucket ''fpv'' None None False
             ''7393/session_20250116_090000_2/'' seg_stats0 {} example_world) = Continue
   \<and> oss_calls (snd (snd (snd (scan_segments_session example_bucket ''fpv'' None None False
             ''7393/session_20250116_090000_2/'' seg_stats0 {} example_world))))
       = oss_calls example_world"
proof -
  let ?run = "scan_segments example_bucket ''fpv'' example_config None None None False
                example_world"
  let ?step = "scan_segments_session example_bucket ''fpv'' None None False
             ''7393/session_20250116_090000_2/'' seg_stats0 {} example_world"
  have r: "?run = (fst ?run, snd ?run)" by simp
  have s: "?step = (fst ?step, fst (snd ?step), fst (snd (snd ?step)), snd (snd (snd ?step)))"
    by simp
  have absent: "session_id_of ''7393/session_20250116_090000_2/''
       \<notin> set (map session_id (sessions_tbl example_world))"
    by code_simp
  from session_before_segment [OF example_world_idle, of example_bucket "''fpv''" example_config
      None None None False "fst ?run" "snd ?run" "''7393/session_20250116_090000_2/''"
      seg_stats0 "{}" "fst ?step" "fst (snd ?step)" "fst (snd (snd ?step))"
      "snd (snd (snd ?step))"]
    r s absent example_world_idle
  show ?thesis by blast
qed

section \<open>Size lookup\<close>

lemma oss_request_fault:
  "oss_faults w = f # fs \<Longrightarrow>
     oss_request c w = (f, w\<lparr>oss_faults := fs, oss_calls := oss_calls w @ [c]\<rparr>)"
  by (simp add: oss_request_def)


lemma get_object_size_fault:
  assumes "oss_faults w = True # fs"
  shows "get_object_size b k w
           = (Inr 0, logging WARNING ''get_object_size'' k
                       (w\<lparr>oss_faults := fs, oss_calls := oss_calls w @ [HeadObject k]\<rparr>))"
  using assms
  by (simp add: get_object_size_once get_object_size_body_def head_object_def oss_request_fault)

lemma get_object_size_returns: "\<exists>n w'. get_object_size b k w = (Inr n, w')"
  using get_object_size_body_returns by (simp add: get_object_size_once)

lemma group_object_size_fault:
  assumes "parse_mp4_filename (last_component k) = (cam, seg)" and "cam \<noteq> []" and "seg \<noteq> []"
    and "oss_faults w = True # fs"
  shows "group_object b bname k d nv w
     = (if contains (lower cam) ''down''
        then Inr (dict_update seg
                    (\<lambda>(dn, fr). (Some (CameraFile (last_component k)
                                          (''oss://'' @ bname @ ''/'' @ k) 0), fr)) d, nv)
        else if contains (lower cam) ''front''
        then Inr (dict_update seg
                    (\<lambda>(dn, fr). (dn, Some (CameraFile (last_component k)
                                          (''oss://'' @ bname @ ''/'' @ k) 0))) d, nv)
        else Inr (d, nv + 1),
        if contains (lower cam) ''down'' \<or> contains (lower cam) ''front''
        then logging WARNING ''get_object_size'' k
               (w\<lparr>oss_faults := fs, oss_calls := oss_calls w @ [HeadObject k]\<rparr>)
        else logging WARNING ''scan_segments: unknown camera type'' (last_component k)
               (logging WARNING ''get_object_size'' k
                  (w\<lparr>oss_faults := fs, oss_calls := oss_calls w @ [HeadObject k]\<rparr>)))"
  using assms by (simp add: group_object_def Let_def get_object_size_fault)

lemma size_fault_example:
  "fst (scan_segments example_bucket ''fpv'' example_config None None None False size_fault_world)
     = Inr (seg_stats0\<lparr>seg_devices_scanned := 1, seg_sessions_scanned := 3,
                       sessions_processed := 2, segments_new := 1, segments_unpaired := 3,
                       sessions_missing := 1\<rparr>,
            {(''session_20250115_101010_1'', ''0002'')})
   \<and> segments_tbl (snd (scan_segments example_bucket ''fpv'' example_config None None None False
                          size_fault_world))
     = [\<lparr>seg_session_id = ''session_20250115_101010_1'', segment_number = ''0002'',
         down_file_name = ''cam-down_sbs_0002.mp4'',
         down_oss_path = ''oss://fpv/7393/session_20250115_101010_1/segments/cam-down_sbs_0002.mp4'',
         down_file_size_bytes = 0,
         front_file_name = ''cam-front_sbs_0002.mp4'',
         front_oss_path = ''oss://fpv/7393/session_20250115_101010_1/segments/cam-front_sbs_0002.mp4'',
         front_file_size_bytes = 0\<rparr>]"
  by code_simp

text \<open>
  Claim C10. \<open>get_object_size\<close> never raises: it always returns a number. When the
  head-object request raises, it returns 0 after that single request and logs a warning.
  In the loop over the MP4 objects, a down file or a front file whose size lookup failed
  is entered in the dictionary with the size 0 and the count of invalid file names stays
  as it is; the pair is then inserted with these sizes. In the example, both size lookups
  of segment 0002 fail and the row is inserted with both sizes 0 and counted as new.
\<close>

theorem size_lookup_never_fails:
  "(\<exists>n w'. get_object_size b k w = (Inr n, w'))
   \<and> (oss_faults w = True # fs \<longrightarrow>
        get_object_size b k w
          = (Inr 0, logging WARNING ''get_object_size'' k
                      (w\<lparr>oss_faults := fs, oss_calls := oss_calls w @ [HeadObject k]\<rparr>)))
   \<and> (parse_mp4_filename (last_component k) = (cam, seg) \<and> cam \<noteq> [] \<and> seg \<noteq> []
        \<and> contains (lower cam) ''down'' \<and> oss_faults w = True # fs \<longrightarrow>
        fst (group_object b bname k d nv w)
          = Inr (dict_update seg
                   (\<lambda>(dn, fr). (Some (CameraFile (last_component k)
                                         (''oss://'' @ bname @ ''/'' @ k) 0), fr)) d, nv))
   \<and> (parse_mp4_filename (last_component k) = (cam, seg) \<and> cam \<noteq> [] \<and> seg \<noteq> []
        \<and> \<not> contains (lower cam) ''down'' \<and> contains (lower cam) ''front''
        \<and> oss_faults w = True # fs \<longrightarrow>
        fst (group_object b bname k d nv w)
          = Inr (dict_update seg
                   (\<lambda>(dn, fr). (dn, Some (CameraFile (last_component k)
                                         (''oss://'' @ bname @ ''/'' @ k) 0))) d, nv))
   \<and> fst (scan_segments example_bucket ''fpv'' example_config None None None False
            size_fault_world)
     = Inr (seg_stats0\<lparr>seg_devices_scanned := 1, seg_sessions_scanned := 3,
                       sessions_processed := 2, segments_new := 1, segments_unpaired := 3,
                       sessions_missing := 1\<rparr>,
            {(''session_20250115_101010_1'', ''0002'')})
   \<and> segments_tbl (snd (scan_segments example_bucket ''fpv'' example_config None None None False
                          size_fault_world))
     = [\<lparr>seg_session_id = ''session_20250115_101010_1'', segment_number = ''0002'',
         down_file_name = ''cam-down_sbs_0002.mp4'',
         down_oss_path = ''oss://fpv/7393/session_20250115_101010_1/segments/cam-down_sbs_0002.mp4'',
         down_file_size_bytes = 0,
         front_file_name = ''cam-front_sbs_0002.mp4'',
         front_oss_path = ''oss://fpv/7393/session_20250115_101010_1/segments/cam-front_sbs_0002.mp4'',
         front_file_size_bytes = 0\<rparr>]"
proof -
  have a: "\<exists>n w'. get_object_size b k w = (Inr n, w')"
    by (rule get_object_size_returns)
  have c: "parse_mp4_filename (last_component k) = (cam, seg) \<and> cam \<noteq> [] \<and> seg \<noteq> []
        \<and> contains (lower cam) ''down'' \<and> oss_faults w = True # fs \<longrightarrow>
        fst (group_object b bname k d nv w)
          = Inr (dict_update seg
                   (\<lambda>(dn, fr). (Some (CameraFile (last_component k)
                                         (''oss://'' @ bname @ ''/'' @ k) 0), fr)) d, nv)"
    by (simp add: group_object_size_fault)
  have d: "parse_mp4_filename (last_component k) = (cam, seg) \<and> cam \<noteq> [] \<and> seg \<noteq> []
        \<and> \<not> contains (lower cam) ''down'' \<and> contains (lower cam) ''front''
        \<and> oss_faults w = True # fs \<longrightarrow>
        fst (group_object b bname k d nv w)
          = Inr (dict_update seg
                   (\<lambda>(dn, fr). (dn, Some (CameraFile (last_component k)
                                         (''oss://'' @ bname @ ''/'' @ k) 0))) d, nv)"
    by (simp add: group_object_size_fault)
  from a c d get_object_size_fault [of w fs b k] size_fault_example show ?thesis
    by blast
qed

theorem size_lookup_never_fails_witness:
  "oss_faults (empty_world\<lparr>oss_faults := [True]\<rparr>) = True # []
   \<and> get_object_size example_bucket
        ''7393/session_20250115_101010_1/segments/cam-down_sbs_0002.mp4''
        (empty_world\<lparr>oss_faults := [True]\<rparr>)
      = (Inr 0, logging WARNING ''get_object_size''
                  ''7393/session_20250115_101010_1/segments/cam-down_sbs_0002.mp4''
                  (empty_world\<lparr>oss_faults := [True], oss_faults := [],
                     oss_calls := oss_calls (empty_world\<lparr>oss_faults := [True]\<rparr>)
                       @ [HeadObject
                           ''7393/session_20250115_101010_1/segments/cam-down_sbs_0002.mp4'']\<rparr>))
   \<and> fst (group_object example_bucket ''fpv''
             ''7393/session_20250115_101010_1/segments/cam-down_sbs_0002.mp4'' [] 0
             (empty_world\<lparr>oss_faults := [True]\<rparr>))
      = Inr (dict_update ''0002''
               (\<lambda>(dn, fr). (Some (CameraFile
                   (last_component ''7393/session_20250115_101010_1/segments/cam-down_sbs_0002.mp4'')
                   (''oss://'' @ ''fpv'' @ ''/''
                      @ ''7393/session_20250115_101010_1/segments/cam-down_sbs_0002.mp4'') 0), fr))
               [], 0)"
proof -
  let ?k = "''7393/session_20250115_101010_1/segments/cam-down_sbs_0002.mp4''"
  let ?w = "empty_world\<lparr>oss_faults := [True]\<rparr>"
  have f: "oss_faults ?w = True # []" by simp
  have p: "parse_mp4_filename (last_component ?k) = (''cam-down'', ''0002'')" by code_simp
  have c: "''cam-down'' \<noteq> [] \<and> ''0002'' \<noteq> [] \<and> contains (lower ''cam-down'') ''down''"
    by code_simp
  from size_lookup_never_fails [of example_bucket ?k ?w "[]" "''cam-down''" "''0002''" "''fpv''"
      "[]" 0] f p c
  show ?thesis by blast
qed

section \<open>Failing lookups and duplicate inserts\<close>


lemma db_request_no_fault:
  "db_faults w = [] \<Longrightarrow> db_request st w = (False, w\<lparr>db_trace := db_trace w @ [st]\<rparr>)"
  by (simp add: db_request_def)






















end
